theory Spec2Isabelle
  imports Main "HOL-Library.Word" "HOL-Library.Sublist" "HOL-Library.Multiset"
begin

section \<open>JavaScript values\<close>

text \<open>
  A JavaScript string is a sequence of UTF-16 code units, and \<open>str.length\<close> counts
  code units. String literals of the source that are plain ASCII are written through
  \<open>utf16\<close>, one code unit per character.
\<close>

type_synonym js_string = "16 word list"

definition utf16 :: "string \<Rightarrow> js_string" where
  "utf16 s = map (\<lambda>c. word_of_nat (of_char c)) s"

text \<open>
  A field of a response that may be absent: \<open>undefined\<close>, \<open>null\<close> or a value.
\<close>

datatype 'a nullable = Undefined | Null | Value 'a

text \<open>
  \<open>x || d\<close> on an optional string: \<open>undefined\<close>, \<open>null\<close> and the empty string are
  the falsy values, every other string is truthy.
\<close>

definition or_default :: "js_string nullable \<Rightarrow> js_string \<Rightarrow> js_string" where
  "or_default x d = (case x of Value s \<Rightarrow> (if s = [] then d else s) | _ \<Rightarrow> d)"

text \<open>
  \<open>str.substring(start, end)\<close>: both indices are clamped to \<open>[0, str.length]\<close> and
  swapped when \<open>start > end\<close>.
\<close>

definition substring :: "js_string \<Rightarrow> int \<Rightarrow> int \<Rightarrow> js_string" where
  "substring str start end' =
     (let len = int (length str);
          s = min (max start 0) len;
          e = min (max end' 0) len;
          from = min s e;
          to = max s e
      in take (nat (to - from)) (drop (nat from) str))"

section \<open>utils.ts\<close>

text \<open>
  \<open>truncateString(str, maxLength)\<close>; \<open>maxLength\<close> is an integer at both call sites
  (28 and 13) and is modelled as \<open>int\<close>.
\<close>

definition truncateString :: "js_string \<Rightarrow> int \<Rightarrow> js_string" where
  "truncateString str maxLength =
     (if int (length str) \<le> maxLength then str
      else substring str 0 (maxLength - 3) @ utf16 ''...'')"

section \<open>types.ts and the records of the remote service\<close>

text \<open>
  The fields of one item of the \<open>listForAuthenticatedUser\<close> response that the
  manager reads.
\<close>

record RawRepo =
  raw_id :: int
  raw_name :: js_string
  raw_full_name :: js_string
  raw_private :: bool
  raw_description :: "js_string nullable"
  raw_language :: "js_string nullable"
  raw_updated_at :: "js_string nullable"
  raw_size :: int

text \<open>
  The interface \<open>Repository\<close>. The fields \<open>id\<close>, \<open>private\<close> and \<open>size\<close> carry a
  suffix, since these names are taken in Isabelle.
\<close>

record Repository =
  id_repo :: int
  name :: js_string
  fullName :: js_string
  private_repo :: bool
  description :: js_string
  language :: js_string
  updatedAt :: js_string
  size_repo :: int

section \<open>github-repo-manager.ts: normalisation\<close>

text \<open>
  The arrow function of \<open>data.map\<close> in \<open>getAllRepositories\<close>. Its first argument is
  the reading of the clock, \<open>new Date().toISOString()\<close>, at this record.
\<close>

definition toRepository :: "js_string \<Rightarrow> RawRepo \<Rightarrow> Repository" where
  "toRepository nowISO repo =
     \<lparr> id_repo = raw_id repo,
       name = raw_name repo,
       fullName = raw_full_name repo,
       private_repo = raw_private repo,
       description = or_default (raw_description repo) (utf16 ''No description''),
       language = or_default (raw_language repo) (utf16 ''Unknown''),
       updatedAt = or_default (raw_updated_at repo) nowISO,
       size_repo = raw_size repo \<rparr>"

section \<open>The remote service, the console and the operator\<close>

text \<open>
  The Octokit client is outside the program: it is a parameter. Within one run of a
  flow every request is made once (page numbers grow, and the batch loop calls once per
  index), so the answers of the service are given as a function of the request; the
  mutation calls also take the index of the item, so that two calls for the same name
  may be answered differently. A rejected promise is \<open>Inl\<close>.
\<close>

datatype api_error = RequestError nat

record remote =
  repos_listForAuthenticatedUser :: "nat \<Rightarrow> nat \<Rightarrow> api_error + RawRepo list"
  repos_update :: "nat \<Rightarrow> js_string \<Rightarrow> js_string \<Rightarrow> bool \<Rightarrow> api_error + unit"
  repos_delete :: "nat \<Rightarrow> js_string \<Rightarrow> js_string \<Rightarrow> api_error + unit"

datatype visibility = Public | Private

text \<open>The lines written to the console, by what they say.\<close>

datatype message =
    Fetching
  | FetchFailed api_error
  | NoRepositoriesFound
  | AllAlready visibility
  | NoneSelected
  | Cancelled
  | ChangingVisibility visibility
  | ItemChanged js_string visibility
  | ItemChangeFailed js_string
  | AboutToDelete
  | Bullet js_string
  | DeletingRepositories
  | ItemDeleted js_string
  | ItemDeleteFailed js_string
  | BlankLine
  | Summary nat nat

text \<open>
  What a run does, in order: the requests sent to the service (\<open>per_page\<close> and
  \<open>page\<close>; owner, repository and the new flag; owner and repository), the waits of
  \<open>Utils.delay\<close> in milliseconds, the progress bar written for item \<open>current\<close> of
  \<open>total\<close>, the console lines, and an answer refused by the \<open>validate\<close> callback of
  a prompt with the message shown for it.
\<close>

datatype event =
    ListCall nat nat
  | UpdateCall js_string js_string bool
  | DeleteCall js_string js_string
  | Delay nat
  | Progress nat nat
  | Console message
  | Rejected js_string js_string

section \<open>github-repo-manager.ts: getAllRepositories\<close>

text \<open>
  \<open>data.map(...)\<close> over one page. Each record reads the clock on its own;
  \<open>clock k\<close> is the reading at the record that becomes element \<open>k\<close> of the result.
\<close>

definition normalisePage :: "(nat \<Rightarrow> js_string) \<Rightarrow> nat \<Rightarrow> RawRepo list \<Rightarrow> Repository list" where
  "normalisePage clock offset data =
     map (\<lambda>(k, repo). toRepository (clock k) repo) (enumerate offset data)"

text \<open>
  The \<open>while (hasMore)\<close> loop inside \<open>try\<close>, with the variables \<open>page\<close> and
  \<open>repositories\<close> and the events so far. A rejected request leaves the loop through
  \<open>catch\<close>, which reports the error and returns the empty array. The loop need not end:
  the result \<open>None\<close> is a run that never returns.
\<close>

partial_function (option) fetchLoop ::
  "(nat \<Rightarrow> js_string) \<Rightarrow> remote \<Rightarrow> nat \<Rightarrow> Repository list \<Rightarrow> event list
     \<Rightarrow> (event list \<times> Repository list) option" where
  "fetchLoop clock remote page repositories tr =
     (case repos_listForAuthenticatedUser remote 100 page of
        Inl err \<Rightarrow> Some (tr @ [ListCall 100 page, Console (FetchFailed err)], [])
      | Inr data \<Rightarrow>
          (if length data = 100
           then fetchLoop clock remote (page + 1)
                  (repositories @ normalisePage clock (length repositories) data)
                  (tr @ [ListCall 100 page])
           else Some (tr @ [ListCall 100 page],
                      repositories @ normalisePage clock (length repositories) data)))"

definition getAllRepositories ::
  "(nat \<Rightarrow> js_string) \<Rightarrow> remote \<Rightarrow> (event list \<times> Repository list) option" where
  "getAllRepositories clock remote = fetchLoop clock remote 1 [] [Console Fetching]"

text \<open>
  For the statements below: the records of a page that was delivered, the pages
  \<open>first, ..., first + n - 1\<close> put together in the order received, and the list
  requests among the events of a run.
\<close>

definition pageData :: "remote \<Rightarrow> nat \<Rightarrow> RawRepo list" where
  "pageData remote page =
     (case repos_listForAuthenticatedUser remote 100 page of Inl _ \<Rightarrow> [] | Inr data \<Rightarrow> data)"

definition pagesFrom :: "remote \<Rightarrow> nat \<Rightarrow> nat \<Rightarrow> RawRepo list" where
  "pagesFrom remote first n = concat (map (pageData remote) [first..<first + n])"

definition fullPage :: "remote \<Rightarrow> nat \<Rightarrow> bool" where
  "fullPage remote page =
     (case repos_listForAuthenticatedUser remote 100 page of
        Inl _ \<Rightarrow> False | Inr data \<Rightarrow> length data = 100)"

fun isListCall :: "event \<Rightarrow> bool" where
  "isListCall (ListCall _ _) = True"
| "isListCall _ = False"

section \<open>github-repo-manager.ts: the batch loops\<close>

text \<open>
  The two \<open>for\<close> loops, of \<open>changeVisibilityFlow\<close> and of
  \<open>deleteRepositoriesFlow\<close>, are the same text up to the request they send, the two
  lines they print and the length of the wait. They share one definition here, with the
  action as a parameter.
\<close>

datatype action = SetVisibility visibility | DeleteRepository

definition isTargetPrivate :: "visibility \<Rightarrow> bool" where
  "isTargetPrivate targetVisibility = (targetVisibility = Private)"

fun invoke :: "remote \<Rightarrow> action \<Rightarrow> nat \<Rightarrow> js_string \<Rightarrow> js_string \<Rightarrow> api_error + unit" where
  "invoke remote (SetVisibility targetVisibility) i owner repo =
     repos_update remote i owner repo (isTargetPrivate targetVisibility)"
| "invoke remote DeleteRepository i owner repo = repos_delete remote i owner repo"

fun request :: "action \<Rightarrow> js_string \<Rightarrow> js_string \<Rightarrow> event" where
  "request (SetVisibility targetVisibility) owner repo =
     UpdateCall owner repo (isTargetPrivate targetVisibility)"
| "request DeleteRepository owner repo = DeleteCall owner repo"

fun starting :: "action \<Rightarrow> message" where
  "starting (SetVisibility targetVisibility) = ChangingVisibility targetVisibility"
| "starting DeleteRepository = DeletingRepositories"

fun succeeded :: "action \<Rightarrow> js_string \<Rightarrow> message" where
  "succeeded (SetVisibility targetVisibility) repoName = ItemChanged repoName targetVisibility"
| "succeeded DeleteRepository repoName = ItemDeleted repoName"

fun failed :: "action \<Rightarrow> js_string \<Rightarrow> message" where
  "failed (SetVisibility targetVisibility) repoName = ItemChangeFailed repoName"
| "failed DeleteRepository repoName = ItemDeleteFailed repoName"

fun pacing :: "action \<Rightarrow> nat" where
  "pacing (SetVisibility targetVisibility) = 100"
| "pacing DeleteRepository = 200"

text \<open>
  \<open>for (let i = 0; i < selectedRepos.length; i++)\<close> from the value of \<open>i\<close> on, with
  the two counters and the events so far. The rejected promise of a request is caught in
  the body. The test \<open>i < selectedRepos.length - 1\<close> is on integers, where the right
  side may be \<open>-1\<close>.
\<close>

function batchLoop ::
  "remote \<Rightarrow> js_string \<Rightarrow> action \<Rightarrow> js_string list \<Rightarrow> nat \<Rightarrow> nat \<Rightarrow> nat \<Rightarrow> event list
     \<Rightarrow> event list \<times> nat \<times> nat" where
  "batchLoop remote username act selectedRepos i successCount errorCount tr =
     (if i < length selectedRepos then
        (let repoName = selectedRepos ! i;
             attempt = tr @ [Progress (i + 1) (length selectedRepos),
                             request act username repoName];
             pause = (if int i < int (length selectedRepos) - 1
                      then [Delay (pacing act)] else [])
         in case invoke remote act i username repoName of
              Inr ok \<Rightarrow>
                batchLoop remote username act selectedRepos (i + 1)
                  (successCount + 1) errorCount
                  (attempt @ [Console (succeeded act repoName)] @ pause)
            | Inl error \<Rightarrow>
                batchLoop remote username act selectedRepos (i + 1)
                  successCount (errorCount + 1)
                  (attempt @ [Console (failed act repoName)] @ pause))
      else (tr, successCount, errorCount))"
  by pat_completeness auto
termination
  by (relation "measure (\<lambda>(remote, username, act, selectedRepos, i, rest). length selectedRepos - i)")
     auto

declare batchLoop.simps [simp del]

text \<open>
  The part of both flows after the confirmation: the opening line, the loop, the blank
  line and the summary.
\<close>

definition executeBatch :: "remote \<Rightarrow> js_string \<Rightarrow> action \<Rightarrow> js_string list \<Rightarrow> event list" where
  "executeBatch remote username act selectedRepos =
     (case batchLoop remote username act selectedRepos 0 0 0 [Console (starting act)] of
        (tr, successCount, errorCount) \<Rightarrow>
          tr @ [Console BlankLine, Console (Summary successCount errorCount)])"

section \<open>github-repo-manager.ts: the operator and the two flows\<close>

text \<open>
  The choices offered by a checkbox prompt: what the label shows (name, visibility,
  language, and the description in the deletion list), the value, and the mark.
\<close>

datatype label =
    VisibilityLabel js_string bool js_string
  | DeletionLabel js_string bool js_string js_string

record choice =
  label_choice :: label
  value_choice :: js_string
  checked_choice :: bool

text \<open>
  The answers of the operator in one run: the target picked in the list prompt, the
  names ticked in the checkbox prompt, the answer to the yes/no prompt, and the lines
  submitted at the text prompt of the deletion, in order.
\<close>

record operator =
  answer_targetVisibility :: visibility
  answer_selectedRepos :: "choice list \<Rightarrow> js_string list"
  answer_confirm :: bool
  answers_confirmDelete :: "js_string list"

text \<open>
  \<open>repos.filter((repo) => repo.private !== isTargetPrivate)\<close> in
  \<open>changeVisibilityFlow\<close>.
\<close>

definition filteredRepos :: "visibility \<Rightarrow> Repository list \<Rightarrow> Repository list" where
  "filteredRepos targetVisibility repos =
     filter (\<lambda>repo. private_repo repo \<noteq> isTargetPrivate targetVisibility) repos"

definition visibilityChoice :: "Repository \<Rightarrow> choice" where
  "visibilityChoice repo =
     \<lparr> label_choice = VisibilityLabel (name repo) (private_repo repo) (language repo),
       value_choice = name repo,
       checked_choice = False \<rparr>"

definition deletionChoice :: "Repository \<Rightarrow> choice" where
  "deletionChoice repo =
     \<lparr> label_choice =
         DeletionLabel (name repo) (private_repo repo) (language repo) (description repo),
       value_choice = name repo,
       checked_choice = False \<rparr>"

text \<open>
  \<open>changeVisibilityFlow\<close>. The result is the events of the run; \<open>None\<close> is a run in
  which the fetching never ends.
\<close>

definition changeVisibilityFlow ::
  "(nat \<Rightarrow> js_string) \<Rightarrow> remote \<Rightarrow> js_string \<Rightarrow> operator \<Rightarrow> event list option" where
  "changeVisibilityFlow clock remote username operator =
     (let targetVisibility = answer_targetVisibility operator in
      case getAllRepositories clock remote of
        None \<Rightarrow> None
      | Some (tr, repos) \<Rightarrow>
          if length repos = 0 then Some (tr @ [Console NoRepositoriesFound])
          else
            let filtered = filteredRepos targetVisibility repos in
            if length filtered = 0 then Some (tr @ [Console (AllAlready targetVisibility)])
            else
              let repoChoices = map visibilityChoice filtered;
                  selectedRepos = answer_selectedRepos operator repoChoices in
              if length selectedRepos = 0 then Some (tr @ [Console NoneSelected])
              else if \<not> answer_confirm operator then Some (tr @ [Console Cancelled])
              else Some (tr @ executeBatch remote username
                                (SetVisibility targetVisibility) selectedRepos))"

text \<open>
  The \<open>validate\<close> callback of the deletion prompt returns \<open>true\<close> or the message to
  show.
\<close>

datatype validation = Accepted | ErrorMessage js_string

definition mustTypeDelete :: js_string where
  "mustTypeDelete =
     utf16 ''You must type '' @ [0x22] @ utf16 ''DELETE'' @ [0x22] @ utf16 '' to confirm''"

definition validateDelete :: "js_string \<Rightarrow> validation" where
  "validateDelete input =
     (if input = utf16 ''DELETE'' then Accepted else ErrorMessage mustTypeDelete)"

text \<open>
  An \<open>input\<close> prompt of Inquirer with a \<open>validate\<close> callback. Inquirer takes a
  submitted line as the answer only when the callback returns \<open>true\<close>; for any other
  return value it shows the message and goes on asking. The list holds the lines the
  operator submits, in order; when none of them is accepted the prompt never resolves
  and there is no answer.
\<close>

fun promptInput ::
  "(js_string \<Rightarrow> validation) \<Rightarrow> js_string list \<Rightarrow> event list \<times> js_string option" where
  "promptInput validate [] = ([], None)"
| "promptInput validate (line # rest) =
     (case validate line of
        Accepted \<Rightarrow> ([], Some line)
      | ErrorMessage shown \<Rightarrow>
          (case promptInput validate rest of
             (tr, answer) \<Rightarrow> (Rejected line shown # tr, answer)))"

text \<open>
  The rest of \<open>deleteRepositoriesFlow\<close> once the prompt has resolved to
  \<open>confirmDelete\<close>: the test \<open>confirmDelete !== 'DELETE'\<close> and the batch.
\<close>

definition confirmedDeletion ::
  "remote \<Rightarrow> js_string \<Rightarrow> js_string list \<Rightarrow> js_string \<Rightarrow> event list" where
  "confirmedDeletion remote username selectedRepos confirmDelete =
     (if confirmDelete \<noteq> utf16 ''DELETE'' then [Console Cancelled]
      else executeBatch remote username DeleteRepository selectedRepos)"

text \<open>
  How a run of \<open>deleteRepositoriesFlow\<close> ends: it returns, or it stays at the text
  prompt, which never resolves.
\<close>

datatype ending = Returned | Suspended

definition deleteRepositoriesFlow ::
  "(nat \<Rightarrow> js_string) \<Rightarrow> remote \<Rightarrow> js_string \<Rightarrow> operator
     \<Rightarrow> (event list \<times> ending) option" where
  "deleteRepositoriesFlow clock remote username operator =
     (case getAllRepositories clock remote of
        None \<Rightarrow> None
      | Some (tr, repos) \<Rightarrow>
          if length repos = 0 then Some (tr @ [Console NoRepositoriesFound], Returned)
          else
            let repoChoices = map deletionChoice repos;
                selectedRepos = answer_selectedRepos operator repoChoices in
            if length selectedRepos = 0 then Some (tr @ [Console NoneSelected], Returned)
            else
              let listing = tr @ [Console AboutToDelete] @ map (\<lambda>repo. Console (Bullet repo)) selectedRepos
              in case promptInput validateDelete (answers_confirmDelete operator) of
                   (refused, None) \<Rightarrow> Some (listing @ refused, Suspended)
                 | (refused, Some confirmDelete) \<Rightarrow>
                     Some (listing @ refused @
                           confirmedDeletion remote username selectedRepos confirmDelete,
                           Returned))"

section \<open>utils.ts: sortRepositories, on arrays in a store\<close>

text \<open>
  \<open>sortRepositories\<close> calls \<open>Array.prototype.sort\<close>, which works on the array it is
  given. To tell an array from its contents the arrays live in a store: a reference is
  an index into the store. The records themselves are never written to, so an array
  holds them as values.
\<close>

type_synonym ref = nat
type_synonym store = "Repository list list"

datatype sortBy = ByName | ByUpdated | BySize

text \<open>
  What the comparison function takes from the JavaScript runtime:
  \<open>new Date(s).getTime()\<close>, which is \<open>NaN\<close> (here \<open>None\<close>) for a string that is not
  a date, \<open>toLowerCase\<close> and \<open>localeCompare\<close>.
\<close>

record runtime =
  dateGetTime :: "js_string \<Rightarrow> int option"
  toLowerCase :: "js_string \<Rightarrow> js_string"
  localeCompare :: "js_string \<Rightarrow> js_string \<Rightarrow> int"

text \<open>
  The arrow function given to \<open>sort\<close>. A difference with a \<open>NaN\<close> operand is
  \<open>NaN\<close>. The \<open>default\<close> branch of the \<open>switch\<close> is not reachable for a
  \<open>sortBy\<close> of the declared type.
\<close>

definition compareFn :: "runtime \<Rightarrow> sortBy \<Rightarrow> Repository \<Rightarrow> Repository \<Rightarrow> int option" where
  "compareFn rt sort_by a b =
     (case sort_by of
        ByName \<Rightarrow> Some (localeCompare rt (toLowerCase rt (name a)) (toLowerCase rt (name b)))
      | ByUpdated \<Rightarrow>
          (case (dateGetTime rt (updatedAt b), dateGetTime rt (updatedAt a)) of
             (Some tb, Some ta) \<Rightarrow> Some (tb - ta)
           | _ \<Rightarrow> None)
      | BySize \<Rightarrow> Some (size_repo b - size_repo a))"

text \<open>
  \<open>Array.prototype.sort(comparefn)\<close>: a \<open>NaN\<close> from the comparison function counts
  as \<open>0\<close>, and the sort is stable. For a comparison function that orders the elements
  consistently the result is fixed by that; it is computed here by stable insertion.
  (For an inconsistent one the language leaves the order to the implementation.)
\<close>

definition sortCompare :: "('a \<Rightarrow> 'a \<Rightarrow> int option) \<Rightarrow> 'a \<Rightarrow> 'a \<Rightarrow> int" where
  "sortCompare comparefn x y = (case comparefn x y of None \<Rightarrow> 0 | Some v \<Rightarrow> v)"

fun insertSorted :: "('a \<Rightarrow> 'a \<Rightarrow> int option) \<Rightarrow> 'a \<Rightarrow> 'a list \<Rightarrow> 'a list" where
  "insertSorted comparefn x [] = [x]"
| "insertSorted comparefn x (y # ys) =
     (if sortCompare comparefn x y \<le> 0 then x # y # ys
      else y # insertSorted comparefn x ys)"

definition sortedContents :: "('a \<Rightarrow> 'a \<Rightarrow> int option) \<Rightarrow> 'a list \<Rightarrow> 'a list" where
  "sortedContents comparefn xs = foldr (insertSorted comparefn) xs []"

text \<open>
  \<open>array.sort(comparefn)\<close> rearranges the array in place and returns the same
  reference; \<open>array.filter(predicate)\<close> makes a new array. A reference outside the
  store does not occur in a running program; the result is \<open>None\<close> for it.
\<close>

definition array_sort ::
  "(Repository \<Rightarrow> Repository \<Rightarrow> int option) \<Rightarrow> ref \<Rightarrow> store \<Rightarrow> (ref \<times> store) option" where
  "array_sort comparefn array st =
     (if array < length st
      then Some (array, st[array := sortedContents comparefn (st ! array)])
      else None)"

definition array_filter ::
  "(Repository \<Rightarrow> bool) \<Rightarrow> ref \<Rightarrow> store \<Rightarrow> (ref \<times> store) option" where
  "array_filter predicate array st =
     (if array < length st
      then Some (length st, st @ [filter predicate (st ! array)])
      else None)"

definition sortRepositories ::
  "runtime \<Rightarrow> ref \<Rightarrow> sortBy \<Rightarrow> store \<Rightarrow> (ref \<times> store) option" where
  "sortRepositories rt repos sort_by st = array_sort (compareFn rt sort_by) repos st"

text \<open>
  A comparison function orders the elements of a set consistently when, read as
  "not after", it is total and transitive on them.
\<close>

definition notAfter :: "('a \<Rightarrow> 'a \<Rightarrow> int option) \<Rightarrow> 'a \<Rightarrow> 'a \<Rightarrow> bool" where
  "notAfter comparefn x y \<longleftrightarrow> sortCompare comparefn x y \<le> 0"

definition consistentOn :: "'a set \<Rightarrow> ('a \<Rightarrow> 'a \<Rightarrow> int option) \<Rightarrow> bool" where
  "consistentOn S comparefn \<longleftrightarrow>
     (\<forall>x\<in>S. \<forall>y\<in>S. notAfter comparefn x y \<or> notAfter comparefn y x) \<and>
     (\<forall>x\<in>S. \<forall>y\<in>S. \<forall>z\<in>S.
        notAfter comparefn x y \<and> notAfter comparefn y z \<longrightarrow> notAfter comparefn x z)"

section \<open>Notions used in the statements\<close>

text \<open>
  The mutation requests among the events of a run, and the waits; the number of
  requests of a batch that the service rejects; the events of item \<open>j\<close> of a batch;
  and a list of requests with one wait between each two neighbours.
\<close>

fun isRequest :: "event \<Rightarrow> bool" where
  "isRequest (UpdateCall _ _ _) = True"
| "isRequest (DeleteCall _ _) = True"
| "isRequest _ = False"

fun isDelay :: "event \<Rightarrow> bool" where
  "isDelay (Delay _) = True"
| "isDelay _ = False"

definition rejected :: "remote \<Rightarrow> js_string \<Rightarrow> action \<Rightarrow> js_string list \<Rightarrow> nat \<Rightarrow> bool" where
  "rejected remote username act selectedRepos j =
     isl (invoke remote act j username (selectedRepos ! j))"

definition failures :: "remote \<Rightarrow> js_string \<Rightarrow> action \<Rightarrow> js_string list \<Rightarrow> nat" where
  "failures remote username act selectedRepos =
     length (filter (rejected remote username act selectedRepos) [0..<length selectedRepos])"

definition itemEvents :: "remote \<Rightarrow> js_string \<Rightarrow> action \<Rightarrow> js_string list \<Rightarrow> nat \<Rightarrow> event list" where
  "itemEvents remote username act selectedRepos j =
     [Progress (j + 1) (length selectedRepos),
      request act username (selectedRepos ! j),
      Console (if rejected remote username act selectedRepos j
               then failed act (selectedRepos ! j)
               else succeeded act (selectedRepos ! j))] @
     (if j + 1 < length selectedRepos then [Delay (pacing act)] else [])"



fun paced :: "event \<Rightarrow> event list \<Rightarrow> event list" where
  "paced wait [] = []"
| "paced wait [x] = [x]"
| "paced wait (x # y # ys) = x # wait # paced wait (y # ys)"

section \<open>Example inputs\<close>

text \<open>
  Concrete inputs for the instances below: a raw record, services that hold given pages
  (one of them failing at a page, one rejecting the mutation request of the item at
  index 1), a clock, an operator who picks "private", ticks every choice offered,
  confirms and types the given lines (and one who ticks \<open>a\<close> alone), two accounts,
  and a runtime for the comparisons (sorting by size
  calls none of its functions).
\<close>

definition rawExample :: RawRepo where
  "rawExample =
     \<lparr> raw_id = 1, raw_name = utf16 ''a'', raw_full_name = utf16 ''o/a'', raw_private = False,
       raw_description = Value [], raw_language = Null,
       raw_updated_at = Value (utf16 ''2024-01-01T00:00:00Z''), raw_size = 7 \<rparr>"

definition remoteOfPages :: "RawRepo list list \<Rightarrow> remote" where
  "remoteOfPages pages =
     \<lparr> repos_listForAuthenticatedUser =
         (\<lambda>per_page page. if 1 \<le> page \<and> page \<le> length pages
                           then Inr (pages ! (page - 1)) else Inr []),
       repos_update = (\<lambda>i owner repo flag. Inr ()),
       repos_delete = (\<lambda>i owner repo. Inr ()) \<rparr>"

definition failingAt :: "nat \<Rightarrow> remote \<Rightarrow> remote" where
  "failingAt k remote =
     remote\<lparr> repos_listForAuthenticatedUser :=
       (\<lambda>per_page page. if page = k then Inl (RequestError 500)
                         else repos_listForAuthenticatedUser remote per_page page) \<rparr>"

definition pages237 :: "RawRepo list list" where
  "pages237 = [replicate 100 rawExample, replicate 100 rawExample, replicate 37 rawExample]"

definition pages300 :: "RawRepo list list" where
  "pages300 = [replicate 100 rawExample, replicate 100 rawExample, replicate 100 rawExample]"

definition clockEx :: "nat \<Rightarrow> js_string" where
  "clockEx k = utf16 ''2024-06-01T00:00:00.000Z''"

definition rawNamed :: "string \<Rightarrow> bool \<Rightarrow> RawRepo" where
  "rawNamed n p = rawExample\<lparr>raw_name := utf16 n, raw_private := p\<rparr>"

definition remoteAB :: remote where
  "remoteAB =
     \<lparr> repos_listForAuthenticatedUser =
         (\<lambda>per_page page. if page = 1 then Inr [rawNamed ''a'' False, rawNamed ''b'' False]
                           else Inr []),
       repos_update = (\<lambda>i owner repo flag. if i = 1 then Inl (RequestError 403) else Inr ()),
       repos_delete = (\<lambda>i owner repo. if i = 1 then Inl (RequestError 403) else Inr ()) \<rparr>"

definition operatorEx :: "js_string list \<Rightarrow> operator" where
  "operatorEx typed =
     \<lparr> answer_targetVisibility = Private,
       answer_selectedRepos = map value_choice,
       answer_confirm = True,
       answers_confirmDelete = typed \<rparr>"

definition runtimeEx :: runtime where
  "runtimeEx =
     \<lparr> dateGetTime = (\<lambda>s. None), toLowerCase = (\<lambda>s. s), localeCompare = (\<lambda>a b. 0) \<rparr>"

definition repoSmall :: Repository where
  "repoSmall = toRepository (clockEx 0) ((rawNamed ''a'' False)\<lparr>raw_size := 1\<rparr>)"

definition repoLarge :: Repository where
  "repoLarge = toRepository (clockEx 0) ((rawNamed ''b'' False)\<lparr>raw_size := 2\<rparr>)"




definition snapshotABC :: "Repository list" where
  "snapshotABC = normalisePage clockEx 0
     [rawNamed ''a'' False, rawNamed ''b'' False, rawNamed ''c'' True]"

section \<open>Properties of the string helpers\<close>

lemma length_utf16 [simp]: "length (utf16 s) = length s"
  by (simp add: utf16_def)

lemma substring_from_0: "substring str 0 e = take (nat e) str"
  by (auto simp: substring_def Let_def min_def max_def)

text \<open>
  C10. A string no longer than \<open>maxLength\<close> is returned unchanged. A longer one
  becomes its first \<open>maxLength - 3\<close> code units followed by three dots: the result has
  length exactly \<open>maxLength\<close> when \<open>maxLength\<close> is at least 3, and is the three dots
  alone, longer than the bound, when \<open>maxLength\<close> is less than 3.
\<close>

theorem truncateString_shape:
  "(int (length s) \<le> maxLength \<longrightarrow> truncateString s maxLength = s) \<and>
   (maxLength < int (length s) \<longrightarrow>
      truncateString s maxLength = take (nat (maxLength - 3)) s @ utf16 ''...'' \<and>
      (3 \<le> maxLength \<longrightarrow> int (length (truncateString s maxLength)) = maxLength) \<and>
      (maxLength < 3 \<longrightarrow>
         truncateString s maxLength = utf16 ''...'' \<and>
         length (truncateString s maxLength) = 3 \<and>
         maxLength < int (length (truncateString s maxLength))))"
  by (auto simp: truncateString_def substring_from_0)

theorem truncateString_shape_witness:
  "truncateString (utf16 ''ab'') 5 = utf16 ''ab'' \<and>
   truncateString (utf16 ''abcdefgh'') 5 = utf16 ''ab...'' \<and>
   int (length (truncateString (utf16 ''abcdefgh'') 5)) = 5 \<and>
   truncateString (utf16 ''abcdefgh'') 2 = utf16 ''...'' \<and>
   (2::int) < int (length (truncateString (utf16 ''abcdefgh'') 2))"
  using truncateString_shape [of "utf16 ''ab''" 5]
    truncateString_shape [of "utf16 ''abcdefgh''" 5]
    truncateString_shape [of "utf16 ''abcdefgh''" 2]
  by (simp add: utf16_def)

section \<open>Properties of the normalisation\<close>

text \<open>
  C9. The normalisation replaces a description that is \<open>undefined\<close>, \<open>null\<close> or
  the empty string by "No description" and such a language by "Unknown"; the record
  made from an empty string is the record made from an absent value, and a non-empty
  string is kept.
\<close>

theorem toRepository_sentinels:
  "(raw_description r \<in> {Undefined, Null, Value []} \<longrightarrow>
      description (toRepository t r) = utf16 ''No description'') \<and>
   (raw_language r \<in> {Undefined, Null, Value []} \<longrightarrow>
      language (toRepository t r) = utf16 ''Unknown'') \<and>
   toRepository t (r\<lparr>raw_description := Value []\<rparr>) = toRepository t (r\<lparr>raw_description := Null\<rparr>) \<and>
   toRepository t (r\<lparr>raw_description := Value []\<rparr>) = toRepository t (r\<lparr>raw_description := Undefined\<rparr>) \<and>
   toRepository t (r\<lparr>raw_language := Value []\<rparr>) = toRepository t (r\<lparr>raw_language := Null\<rparr>) \<and>
   toRepository t (r\<lparr>raw_language := Value []\<rparr>) = toRepository t (r\<lparr>raw_language := Undefined\<rparr>) \<and>
   (\<forall>s. s \<noteq> [] \<and> raw_description r = Value s \<longrightarrow> description (toRepository t r) = s) \<and>
   (\<forall>s. s \<noteq> [] \<and> raw_language r = Value s \<longrightarrow> language (toRepository t r) = s)"
  by (auto simp: toRepository_def or_default_def)

theorem toRepository_sentinels_witness:
  "raw_description rawExample \<in> {Undefined, Null, Value []} \<and>
   raw_language rawExample \<in> {Undefined, Null, Value []} \<and>
   description (toRepository [] rawExample) = utf16 ''No description'' \<and>
   language (toRepository [] rawExample) = utf16 ''Unknown''"
proof -
  have d: "raw_description rawExample \<in> {Undefined, Null, Value []}"
    by (simp add: rawExample_def)
  have l: "raw_language rawExample \<in> {Undefined, Null, Value []}"
    by (simp add: rawExample_def)
  from toRepository_sentinels [of rawExample "[]"] d l show ?thesis
    by blast
qed

section \<open>Properties of getAllRepositories\<close>

lemma length_normalisePage [simp]: "length (normalisePage clock off xs) = length xs"
  by (simp add: normalisePage_def)

lemma normalisePage_eq_Nil [simp]: "normalisePage clock off xs = [] \<longleftrightarrow> xs = []"
  using length_normalisePage [of clock off xs] by (simp only: length_0_conv [symmetric])

lemma normalisePage_append:
  "normalisePage clock off (xs @ ys) =
     normalisePage clock off xs @ normalisePage clock (off + length xs) ys"
  by (simp add: normalisePage_def enumerate_append_eq)

lemma normalisePage_Nil [simp]: "normalisePage clock off [] = []"
  by (simp add: normalisePage_def)

lemma fullPage_iff:
  "fullPage remote p \<longleftrightarrow>
     (\<exists>d. repos_listForAuthenticatedUser remote 100 p = Inr d \<and> length d = 100)"
  by (auto simp: fullPage_def split: sum.splits)

lemma pagesFrom_0 [simp]: "pagesFrom remote p 0 = []"
  by (simp add: pagesFrom_def)

lemma upt_plus_Suc: "[p..<p + Suc m] = p # [Suc p..<Suc p + m]"
  by (subst upt_rec) simp

lemma pagesFrom_Suc:
  "pagesFrom remote p (Suc m) = pageData remote p @ pagesFrom remote (Suc p) m"
  unfolding pagesFrom_def upt_plus_Suc by simp

lemma fetchLoop_full_step:
  assumes "fullPage remote page"
  shows "fetchLoop clock remote page acc tr =
         fetchLoop clock remote (Suc page)
           (acc @ normalisePage clock (length acc) (pageData remote page))
           (tr @ [ListCall 100 page])"
  using assms
  by (subst fetchLoop.simps) (auto simp: fullPage_def pageData_def split: sum.splits)

lemma fetchLoop_through_full_pages:
  "(\<forall>p. page \<le> p \<and> p < page + m \<longrightarrow> fullPage remote p) \<Longrightarrow>
   fetchLoop clock remote page acc tr =
   fetchLoop clock remote (page + m)
     (acc @ normalisePage clock (length acc) (pagesFrom remote page m))
     (tr @ map (ListCall 100) [page..<page + m])"
proof (induction m arbitrary: page acc tr)
  case 0
  then show ?case by simp
next
  case (Suc m)
  have full: "fullPage remote page" using Suc.prems by simp
  have rest: "\<forall>p. Suc page \<le> p \<and> p < Suc page + m \<longrightarrow> fullPage remote p"
    using Suc.prems by simp
  show ?case
    unfolding fetchLoop_full_step [OF full] Suc.IH [OF rest] pagesFrom_Suc upt_plus_Suc
    by (simp add: normalisePage_append)
qed

lemma fetchLoop_short_page:
  assumes "repos_listForAuthenticatedUser remote 100 page = Inr d" "length d \<noteq> 100"
  shows "fetchLoop clock remote page acc tr =
         Some (tr @ [ListCall 100 page], acc @ normalisePage clock (length acc) d)"
  using assms by (subst fetchLoop.simps) simp

lemma fetchLoop_failed_page:
  assumes "repos_listForAuthenticatedUser remote 100 page = Inl err"
  shows "fetchLoop clock remote page acc tr =
         Some (tr @ [ListCall 100 page, Console (FetchFailed err)], [])"
  using assms by (subst fetchLoop.simps) simp

lemma length_pagesFrom:
  "length (pagesFrom remote first n) =
     sum_list (map (\<lambda>p. length (pageData remote p)) [first..<first + n])"
  by (simp add: pagesFrom_def length_concat comp_def)

lemma length_pagesFrom_full:
  "(\<forall>p. first \<le> p \<and> p < first + m \<longrightarrow> fullPage remote p) \<Longrightarrow>
   length (pagesFrom remote first m) = 100 * m"
proof (induction m arbitrary: first)
  case 0
  then show ?case by simp
next
  case (Suc m)
  have "fullPage remote first" using Suc.prems by simp
  then have "length (pageData remote first) = 100"
    by (auto simp: fullPage_def pageData_def split: sum.splits)
  moreover have "length (pagesFrom remote (Suc first) m) = 100 * m"
    using Suc.prems by (intro Suc.IH) simp
  ultimately show ?case by (simp add: pagesFrom_Suc)
qed

lemma pagesFrom_snoc:
  "pagesFrom remote first (Suc m) = pagesFrom remote first m @ pageData remote (first + m)"
  by (simp add: pagesFrom_def)

lemma map_name_normalisePage:
  "map name (normalisePage clock off xs) = map raw_name xs"
  by (induction xs arbitrary: off)
     (simp_all add: normalisePage_def toRepository_def)

lemma fetchLoop_extends:
  assumes "fetchLoop clock remote page acc tr = Some y"
  shows "\<exists>rest. fst y = tr @ ListCall 100 page # rest"
  using assms
proof (induction rule: fetchLoop.raw_induct [rotated 1, consumes 1, case_names 1])
  case (1 loop clock remote page repositories tr y)
  show ?case
  proof (cases "repos_listForAuthenticatedUser remote 100 page")
    case (Inl err)
    with 1(2) show ?thesis by auto
  next
    case (Inr data)
    show ?thesis
    proof (cases "length data = 100")
      case True
      with Inr 1(2) have
        "loop clock remote (page + 1)
           (repositories @ normalisePage clock (length repositories) data)
           (tr @ [ListCall 100 page]) = Some y"
        by simp
      from 1(1) [OF this] show ?thesis by auto
    next
      case False
      with Inr 1(2) show ?thesis by auto
    qed
  qed
qed

text \<open>
  C3. Let the pages before page \<open>n\<close> be full, so that page \<open>n\<close> is requested. If
  page \<open>n\<close> arrives and ends the collection, the snapshot is the records of the pages
  \<open>1, ..., n\<close> in the order received, normalised, and its length is the sum of the
  lengths of these pages. If the request for page \<open>n\<close> fails, the snapshot is empty.
\<close>

theorem getAllRepositories_complete_or_empty:
  assumes "1 \<le> n" and "\<forall>p. 1 \<le> p \<and> p < n \<longrightarrow> fullPage remote p"
  shows
    "(\<forall>d. repos_listForAuthenticatedUser remote 100 n = Inr d \<and> length d \<noteq> 100 \<longrightarrow>
        (\<exists>tr snap. getAllRepositories clock remote = Some (tr, snap) \<and>
           snap = normalisePage clock 0 (pagesFrom remote 1 n) \<and>
           map name snap = map raw_name (pagesFrom remote 1 n) \<and>
           length snap = sum_list (map (\<lambda>p. length (pageData remote p)) [1..<Suc n]))) \<and>
     (\<forall>err. repos_listForAuthenticatedUser remote 100 n = Inl err \<longrightarrow>
        (\<exists>tr. getAllRepositories clock remote = Some (tr, [])))"
proof -
  obtain m where n: "n = Suc m"
    using assms(1) by (cases n) auto
  have full: "\<forall>p. 1 \<le> p \<and> p < 1 + m \<longrightarrow> fullPage remote p"
    using assms(2) n by simp
  have through: "getAllRepositories clock remote =
      fetchLoop clock remote n (normalisePage clock 0 (pagesFrom remote 1 m))
        ([Console Fetching] @ map (ListCall 100) [1..<1 + m])"
    unfolding getAllRepositories_def fetchLoop_through_full_pages [OF full]
    by (simp add: n)
  have len: "length (pagesFrom remote 1 n) =
      sum_list (map (\<lambda>p. length (pageData remote p)) [1..<Suc n])"
    by (simp add: length_pagesFrom)
  show ?thesis
  proof (intro conjI allI impI)
    fix d
    assume d: "repos_listForAuthenticatedUser remote 100 n = Inr d \<and> length d \<noteq> 100"
    then have pd: "pageData remote (Suc m) = d"
      by (simp add: pageData_def n)
    have "getAllRepositories clock remote =
        Some (([Console Fetching] @ map (ListCall 100) [1..<1 + m]) @ [ListCall 100 n],
              normalisePage clock 0 (pagesFrom remote 1 n))"
      unfolding through using d
      by (simp add: fetchLoop_short_page n pagesFrom_snoc normalisePage_append pd)
    then show "\<exists>tr snap. getAllRepositories clock remote = Some (tr, snap) \<and>
           snap = normalisePage clock 0 (pagesFrom remote 1 n) \<and>
           map name snap = map raw_name (pagesFrom remote 1 n) \<and>
           length snap = sum_list (map (\<lambda>p. length (pageData remote p)) [1..<Suc n])"
      using len by (simp add: map_name_normalisePage)
  next
    fix err
    assume "repos_listForAuthenticatedUser remote 100 n = Inl err"
    then show "\<exists>tr. getAllRepositories clock remote = Some (tr, [])"
      unfolding through by (simp add: fetchLoop_failed_page)
  qed
qed

lemma filter_isListCall_map [simp]:
  "filter isListCall (map (ListCall k) ps) = map (ListCall k) ps"
  by (induction ps) simp_all

text \<open>
  C4. The requests are for pages of 100 records, for page 1, 2, ... in turn. If the
  pages before page \<open>n\<close> are full and page \<open>n\<close> has fewer than 100 records, exactly
  the pages \<open>1, ..., n\<close> are requested, so \<open>n\<close> requests are made, and
  \<open>100 * (n - 1)\<close> records and those of page \<open>n\<close> are returned: 3 requests and 237
  records for pages of 100, 100 and 37 records. After a full page \<open>n\<close> the page
  \<open>n + 1\<close> is requested: a 4th request after three pages of 100 records.
\<close>

theorem pagination_termination:
  assumes "1 \<le> n" and "\<forall>p. 1 \<le> p \<and> p < n \<longrightarrow> fullPage remote p"
  shows
    "(\<forall>d. repos_listForAuthenticatedUser remote 100 n = Inr d \<and> length d < 100 \<longrightarrow>
        (\<exists>tr snap. getAllRepositories clock remote = Some (tr, snap) \<and>
           filter isListCall tr = map (ListCall 100) [1..<Suc n] \<and>
           length (filter isListCall tr) = n \<and>
           length snap = 100 * (n - 1) + length d)) \<and>
     (fullPage remote n \<longrightarrow>
        (\<forall>tr snap. getAllRepositories clock remote = Some (tr, snap) \<longrightarrow>
           take (Suc n) (filter isListCall tr) = map (ListCall 100) [1..<Suc (Suc n)]))"
proof -
  obtain m where n: "n = Suc m"
    using assms(1) by (cases n) auto
  have full: "\<forall>p. 1 \<le> p \<and> p < 1 + m \<longrightarrow> fullPage remote p"
    using assms(2) n by simp
  have through: "getAllRepositories clock remote =
      fetchLoop clock remote n (normalisePage clock 0 (pagesFrom remote 1 m))
        ([Console Fetching] @ map (ListCall 100) [1..<1 + m])"
    unfolding getAllRepositories_def fetchLoop_through_full_pages [OF full]
    by (simp add: n)
  show ?thesis
  proof (intro conjI allI impI)
    fix d
    assume d: "repos_listForAuthenticatedUser remote 100 n = Inr d \<and> length d < 100"
    then have "getAllRepositories clock remote =
        Some (([Console Fetching] @ map (ListCall 100) [1..<1 + m]) @ [ListCall 100 n],
              normalisePage clock 0 (pagesFrom remote 1 m) @
              normalisePage clock (length (normalisePage clock 0 (pagesFrom remote 1 m))) d)"
      unfolding through by (simp add: fetchLoop_short_page)
    then show "\<exists>tr snap. getAllRepositories clock remote = Some (tr, snap) \<and>
           filter isListCall tr = map (ListCall 100) [1..<Suc n] \<and>
           length (filter isListCall tr) = n \<and>
           length snap = 100 * (n - 1) + length d"
      using length_pagesFrom_full [OF full] by (simp add: n)
  next
    fix tr snap
    assume fulln: "fullPage remote n"
      and res: "getAllRepositories clock remote = Some (tr, snap)"
    have full': "\<forall>p. 1 \<le> p \<and> p < 1 + n \<longrightarrow> fullPage remote p"
      using assms(2) fulln by (auto simp: less_Suc_eq)
    have "fetchLoop clock remote (1 + n)
            ([] @ normalisePage clock (length ([]::Repository list)) (pagesFrom remote 1 n))
            ([Console Fetching] @ map (ListCall 100) [1..<1 + n]) = Some (tr, snap)"
      using res unfolding getAllRepositories_def fetchLoop_through_full_pages [OF full'] .
    from fetchLoop_extends [OF this] obtain rest where
      "tr = ([Console Fetching] @ map (ListCall 100) [1..<1 + n]) @ ListCall 100 (1 + n) # rest"
      by auto
    then show "take (Suc n) (filter isListCall tr) = map (ListCall 100) [1..<Suc (Suc n)]"
      by simp
  qed
qed

lemma below_3: "Suc 0 \<le> p \<Longrightarrow> p < (3::nat) \<Longrightarrow> p = 1 \<or> p = 2"
  by arith

lemma below_4: "Suc 0 \<le> p \<Longrightarrow> p < (4::nat) \<Longrightarrow> p = 1 \<or> p = 2 \<or> p = 3"
  by arith

lemma full_pages237: "\<forall>p. 1 \<le> p \<and> p < 3 \<longrightarrow> fullPage (remoteOfPages pages237) p"
  by (auto dest: below_3 simp: fullPage_def remoteOfPages_def pages237_def)

lemma full_pages300: "\<forall>p. 1 \<le> p \<and> p < 4 \<longrightarrow> fullPage (remoteOfPages pages300) p"
  by (auto dest: below_4 simp: fullPage_def remoteOfPages_def pages300_def)

theorem pagination_termination_witness:
  "(\<exists>tr snap. getAllRepositories clockEx (remoteOfPages pages237) = Some (tr, snap) \<and>
      filter isListCall tr = [ListCall 100 1, ListCall 100 2, ListCall 100 3] \<and>
      length (filter isListCall tr) = 3 \<and> length snap = 237) \<and>
   (\<exists>tr snap. getAllRepositories clockEx (remoteOfPages pages300) = Some (tr, snap) \<and>
      filter isListCall tr = [ListCall 100 1, ListCall 100 2, ListCall 100 3, ListCall 100 4] \<and>
      length (filter isListCall tr) = 4 \<and> length snap = 300)"
proof -
  have a: "repos_listForAuthenticatedUser (remoteOfPages pages237) 100 3
             = Inr (replicate 37 rawExample) \<and> length (replicate 37 rawExample) < 100"
    by (simp add: remoteOfPages_def pages237_def)
  have b: "repos_listForAuthenticatedUser (remoteOfPages pages300) 100 4
             = Inr [] \<and> length ([]::RawRepo list) < 100"
    by (simp add: remoteOfPages_def pages300_def)
  have u3: "[1..<Suc 3] = [1, 2, 3]" by (simp add: upt_rec)
  have u4: "[1..<Suc 4] = [1, 2, 3, 4]" by (simp add: upt_rec)
  from pagination_termination [of 3 "remoteOfPages pages237" clockEx] full_pages237 a
  have "\<exists>tr snap. getAllRepositories clockEx (remoteOfPages pages237) = Some (tr, snap) \<and>
      filter isListCall tr = map (ListCall 100) [1..<Suc 3] \<and>
      length (filter isListCall tr) = 3 \<and> length snap = 100 * (3 - 1) + length (replicate 37 rawExample)"
    by simp
  moreover
  from pagination_termination [of 4 "remoteOfPages pages300" clockEx] full_pages300 b
  have "\<exists>tr snap. getAllRepositories clockEx (remoteOfPages pages300) = Some (tr, snap) \<and>
      filter isListCall tr = map (ListCall 100) [1..<Suc 4] \<and>
      length (filter isListCall tr) = 4 \<and> length snap = 100 * (4 - 1) + length ([]::RawRepo list)"
    by simp
  ultimately show ?thesis
    unfolding u3 u4 by simp
qed

theorem getAllRepositories_complete_or_empty_witness:
  "(\<exists>tr snap. getAllRepositories clockEx (remoteOfPages pages237) = Some (tr, snap) \<and>
      length snap = 237) \<and>
   (\<exists>tr. getAllRepositories clockEx (failingAt 3 (remoteOfPages pages237)) = Some (tr, []))"
proof -
  have a: "repos_listForAuthenticatedUser (remoteOfPages pages237) 100 3
             = Inr (replicate 37 rawExample) \<and> length (replicate 37 rawExample) \<noteq> 100"
    by (simp add: remoteOfPages_def pages237_def)
  have b: "repos_listForAuthenticatedUser (failingAt 3 (remoteOfPages pages237)) 100 3
             = Inl (RequestError 500)"
    by (simp add: failingAt_def)
  have f: "\<forall>p. 1 \<le> p \<and> p < 3 \<longrightarrow> fullPage (failingAt 3 (remoteOfPages pages237)) p"
    by (auto dest: below_3 simp: fullPage_def failingAt_def remoteOfPages_def pages237_def)
  have s: "sum_list (map (\<lambda>p. length (pageData (remoteOfPages pages237) p)) [1..<Suc 3]) = 237"
    by (simp add: upt_rec pageData_def remoteOfPages_def pages237_def)
  from getAllRepositories_complete_or_empty [of 3 "remoteOfPages pages237" clockEx]
    full_pages237 a s
  have "\<exists>tr snap. getAllRepositories clockEx (remoteOfPages pages237) = Some (tr, snap) \<and>
      length snap = 237"
    by auto
  moreover
  from getAllRepositories_complete_or_empty [of 3 "failingAt 3 (remoteOfPages pages237)" clockEx]
    f b
  have "\<exists>tr. getAllRepositories clockEx (failingAt 3 (remoteOfPages pages237)) = Some (tr, [])"
    by auto
  ultimately show ?thesis by simp
qed

section \<open>Properties of the batch loop and the flows\<close>

lemma upt_from_Suc: "i < n \<Longrightarrow> [i..<n] = i # [Suc i..<n]"
  by (rule upt_conv_Cons)

lemma batchLoop_events:
  "i \<le> length selectedRepos \<Longrightarrow>
   batchLoop remote username act selectedRepos i successCount errorCount tr =
     (tr @ concat (map (itemEvents remote username act selectedRepos) [i..<length selectedRepos]),
      successCount + length (filter (\<lambda>j. \<not> rejected remote username act selectedRepos j)
                               [i..<length selectedRepos]),
      errorCount + length (filter (rejected remote username act selectedRepos)
                             [i..<length selectedRepos]))"
proof (induction remote username act selectedRepos i successCount errorCount tr
       rule: batchLoop.induct)
  case (1 remote username act selectedRepos i successCount errorCount tr)
  show ?case
  proof (cases "i < length selectedRepos")
    case False
    with 1(3) have "i = length selectedRepos" by simp
    then show ?thesis by (subst batchLoop.simps) simp
  next
    case True
    then have le: "i + 1 \<le> length selectedRepos" by simp
    have pause: "(int i < int (length selectedRepos) - 1) = (i + 1 < length selectedRepos)"
      by auto
    show ?thesis
    proof (cases "invoke remote act i username (selectedRepos ! i)")
      case (Inr ok)
      then have nr: "\<not> rejected remote username act selectedRepos i"
        by (simp add: rejected_def)
      show ?thesis
        apply (subst batchLoop.simps)
        apply (simp only: True if_True Let_def Inr sum.case)
        apply (subst 1(2) [OF True refl refl refl Inr le])
        apply (simp add: upt_from_Suc [OF True] itemEvents_def nr pause)
        done
    next
      case (Inl err)
      then have r: "rejected remote username act selectedRepos i"
        by (simp add: rejected_def)
      show ?thesis
        apply (subst batchLoop.simps)
        apply (simp only: True if_True Let_def Inl sum.case)
        apply (subst 1(1) [OF True refl refl refl Inl le])
        apply (simp add: upt_from_Suc [OF True] itemEvents_def r pause)
        done
    qed
  qed
qed

lemma failures_le: "failures remote username act selectedRepos \<le> length selectedRepos"
  using length_filter_le [of "rejected remote username act selectedRepos" "[0..<length selectedRepos]"]
  by (simp add: failures_def)

lemma successes_eq:
  "length (filter (\<lambda>j. \<not> rejected remote username act selectedRepos j) [0..<length selectedRepos])
     = length selectedRepos - failures remote username act selectedRepos"
  using sum_length_filter_compl [of "rejected remote username act selectedRepos" "[0..<length selectedRepos]"]
  by (simp add: failures_def)

lemma executeBatch_events:
  "executeBatch remote username act selectedRepos =
     [Console (starting act)] @
     concat (map (itemEvents remote username act selectedRepos) [0..<length selectedRepos]) @
     [Console BlankLine,
      Console (Summary (length selectedRepos - failures remote username act selectedRepos)
                       (failures remote username act selectedRepos))]"
  by (simp add: executeBatch_def batchLoop_events successes_eq) (simp add: failures_def)

lemma isRequest_request [simp]: "isRequest (request act username repo)"
  by (cases act) simp_all

lemma isDelay_request [simp]: "\<not> isDelay (request act username repo)"
  by (cases act) simp_all

lemma requests_itemEvents:
  "filter isRequest (itemEvents remote username act selectedRepos j) =
     [request act username (selectedRepos ! j)]"
  by (simp add: itemEvents_def)

lemma requests_items:
  "filter isRequest (concat (map (itemEvents remote username act selectedRepos) js)) =
     map (\<lambda>j. request act username (selectedRepos ! j)) js"
  by (induction js) (simp_all add: requests_itemEvents)

lemma map_request_nth:
  "map (\<lambda>j. request act username (selectedRepos ! j)) [0..<length selectedRepos] =
     map (request act username) selectedRepos"
  by (rule nth_equalityI) simp_all

lemma requests_executeBatch:
  "filter isRequest (executeBatch remote username act selectedRepos) =
     map (request act username) selectedRepos"
  by (simp add: executeBatch_events requests_items map_request_nth)

lemma last_executeBatch:
  "last (executeBatch remote username act selectedRepos) =
     Console (Summary (length selectedRepos - failures remote username act selectedRepos)
                      (failures remote username act selectedRepos))"
  by (simp add: executeBatch_events)

lemma paced_items:
  "i < n \<Longrightarrow> n = length selectedRepos \<Longrightarrow>
   filter (\<lambda>e. isRequest e \<or> isDelay e)
     (concat (map (itemEvents remote username act selectedRepos) [i..<n])) =
   paced (Delay (pacing act)) (map (\<lambda>j. request act username (selectedRepos ! j)) [i..<n])"
proof (induction "n - i" arbitrary: i)
  case 0
  then show ?case by simp
next
  case (Suc d)
  have step: "[i..<n] = i # [Suc i..<n]"
    using Suc.prems(1) by (rule upt_conv_Cons)
  have this_item: "filter (\<lambda>e. isRequest e \<or> isDelay e)
      (itemEvents remote username act selectedRepos i) =
      request act username (selectedRepos ! i) #
        (if Suc i < n then [Delay (pacing act)] else [])"
    using Suc.prems(2) by (simp add: itemEvents_def)
  show ?case
  proof (cases "Suc i < n")
    case True
    then have next_items: "[Suc i..<n] = Suc i # [Suc (Suc i)..<n]"
      by (rule upt_conv_Cons)
    have "d = n - Suc i" using Suc.hyps(2) by simp
    from Suc.hyps(1) [OF this True Suc.prems(2)] show ?thesis
      unfolding step using this_item True by (simp add: next_items)
  next
    case False
    then have "[Suc i..<n] = []" by simp
    then show ?thesis unfolding step using this_item False by simp
  qed
qed

lemma paced_executeBatch:
  "filter (\<lambda>e. isRequest e \<or> isDelay e) (executeBatch remote username act selectedRepos) =
     paced (Delay (pacing act)) (map (request act username) selectedRepos)"
proof (cases "selectedRepos = []")
  case True
  then show ?thesis by (simp add: executeBatch_events)
next
  case False
  then have "0 < length selectedRepos" by simp
  from paced_items [OF this refl, of remote username act] show ?thesis
    by (simp add: executeBatch_events map_request_nth)
qed

lemma delays_paced:
  "\<forall>x\<in>set xs. \<not> isDelay x \<Longrightarrow>
   filter isDelay (paced (Delay ms) xs) = replicate (length xs - 1) (Delay ms)"
  by (induction "Delay ms" xs rule: paced.induct) simp_all

lemma filter_isDelay_of_both:
  "filter isDelay (filter (\<lambda>e. isRequest e \<or> isDelay e) tr) = filter isDelay tr"
  by (induction tr) auto

lemma delays_executeBatch:
  "filter isDelay (executeBatch remote username act selectedRepos) =
     replicate (length selectedRepos - 1) (Delay (pacing act))"
proof -
  have "filter isDelay (executeBatch remote username act selectedRepos) =
      filter isDelay (filter (\<lambda>e. isRequest e \<or> isDelay e)
        (executeBatch remote username act selectedRepos))"
    by (rule filter_isDelay_of_both [symmetric])
  also have "\<dots> =
      filter isDelay (paced (Delay (pacing act)) (map (request act username) selectedRepos))"
    by (simp only: paced_executeBatch)
  also have "\<dots> = replicate (length (map (request act username) selectedRepos) - 1)
      (Delay (pacing act))"
    by (rule delays_paced) simp
  finally show ?thesis by simp
qed

lemma changeVisibilityFlow_executes:
  assumes "getAllRepositories clock remote = Some (tr0, repos)"
    and "filteredRepos (answer_targetVisibility operator) repos \<noteq> []"
    and "answer_selectedRepos operator
           (map visibilityChoice (filteredRepos (answer_targetVisibility operator) repos))
         = selectedRepos"
    and "selectedRepos \<noteq> []"
    and "answer_confirm operator"
  shows "changeVisibilityFlow clock remote username operator =
           Some (tr0 @ executeBatch remote username
                         (SetVisibility (answer_targetVisibility operator)) selectedRepos)"
proof -
  have "repos \<noteq> []" using assms(2) by (auto simp: filteredRepos_def)
  with assms show ?thesis by (simp add: changeVisibilityFlow_def Let_def)
qed

lemma deleteRepositoriesFlow_executes:
  assumes "getAllRepositories clock remote = Some (tr0, repos)"
    and "repos \<noteq> []"
    and "answer_selectedRepos operator (map deletionChoice repos) = selectedRepos"
    and "selectedRepos \<noteq> []"
    and "promptInput validateDelete (answers_confirmDelete operator)
           = (refused, Some (utf16 ''DELETE''))"
  shows "deleteRepositoriesFlow clock remote username operator =
           Some (tr0 @ [Console AboutToDelete] @
                 map (\<lambda>repo. Console (Bullet repo)) selectedRepos @ refused @
                 executeBatch remote username DeleteRepository selectedRepos, Returned)"
  using assms by (simp add: deleteRepositoriesFlow_def Let_def confirmedDeletion_def)

text \<open>
  C1. A batch of \<open>N\<close> selected names, of which the service rejects the requests of
  \<open>k\<close>: the run sends one request for every name, in the order of the selection, and
  ends with the summary of \<open>N - k\<close> successes and \<open>k\<close> failures. Both flows, once
  confirmed, run this batch and return: a rejected request is counted and goes no
  further.
\<close>

theorem batch_count_law:
  "filter isRequest (executeBatch remote username act selectedRepos)
     = map (request act username) selectedRepos \<and>
   last (executeBatch remote username act selectedRepos)
     = Console (Summary (length selectedRepos - failures remote username act selectedRepos)
                        (failures remote username act selectedRepos)) \<and>
   failures remote username act selectedRepos \<le> length selectedRepos \<and>
   (\<forall>tr0 repos.
      getAllRepositories clock remote = Some (tr0, repos) \<and>
      filteredRepos (answer_targetVisibility operator) repos \<noteq> [] \<and>
      answer_selectedRepos operator
        (map visibilityChoice (filteredRepos (answer_targetVisibility operator) repos))
        = selectedRepos \<and>
      selectedRepos \<noteq> [] \<and> answer_confirm operator \<longrightarrow>
      changeVisibilityFlow clock remote username operator =
        Some (tr0 @ executeBatch remote username
                      (SetVisibility (answer_targetVisibility operator)) selectedRepos)) \<and>
   (\<forall>tr0 repos refused.
      getAllRepositories clock remote = Some (tr0, repos) \<and> repos \<noteq> [] \<and>
      answer_selectedRepos operator (map deletionChoice repos) = selectedRepos \<and>
      selectedRepos \<noteq> [] \<and>
      promptInput validateDelete (answers_confirmDelete operator)
        = (refused, Some (utf16 ''DELETE'')) \<longrightarrow>
      deleteRepositoriesFlow clock remote username operator =
        Some (tr0 @ [Console AboutToDelete] @
              map (\<lambda>repo. Console (Bullet repo)) selectedRepos @ refused @
              executeBatch remote username DeleteRepository selectedRepos, Returned))"
proof (intro conjI allI impI)
  show "filter isRequest (executeBatch remote username act selectedRepos)
     = map (request act username) selectedRepos"
    by (rule requests_executeBatch)
  show "last (executeBatch remote username act selectedRepos)
     = Console (Summary (length selectedRepos - failures remote username act selectedRepos)
                        (failures remote username act selectedRepos))"
    by (rule last_executeBatch)
  show "failures remote username act selectedRepos \<le> length selectedRepos"
    by (rule failures_le)
next
  fix tr0 repos
  assume "getAllRepositories clock remote = Some (tr0, repos) \<and>
      filteredRepos (answer_targetVisibility operator) repos \<noteq> [] \<and>
      answer_selectedRepos operator
        (map visibilityChoice (filteredRepos (answer_targetVisibility operator) repos))
        = selectedRepos \<and>
      selectedRepos \<noteq> [] \<and> answer_confirm operator"
  then show "changeVisibilityFlow clock remote username operator =
        Some (tr0 @ executeBatch remote username
                      (SetVisibility (answer_targetVisibility operator)) selectedRepos)"
    using changeVisibilityFlow_executes [of clock remote tr0 repos operator selectedRepos username]
    by blast
next
  fix tr0 repos refused
  assume "getAllRepositories clock remote = Some (tr0, repos) \<and> repos \<noteq> [] \<and>
      answer_selectedRepos operator (map deletionChoice repos) = selectedRepos \<and>
      selectedRepos \<noteq> [] \<and>
      promptInput validateDelete (answers_confirmDelete operator)
        = (refused, Some (utf16 ''DELETE''))"
  then show "deleteRepositoriesFlow clock remote username operator =
        Some (tr0 @ [Console AboutToDelete] @
              map (\<lambda>repo. Console (Bullet repo)) selectedRepos @ refused @
              executeBatch remote username DeleteRepository selectedRepos, Returned)"
    using deleteRepositoriesFlow_executes
      [of clock remote tr0 repos operator selectedRepos refused username]
    by blast
qed

lemma getAllRepositories_remoteAB:
  "getAllRepositories clockEx remoteAB =
     Some ([Console Fetching, ListCall 100 1],
           normalisePage clockEx 0 [rawNamed ''a'' False, rawNamed ''b'' False])"
  unfolding getAllRepositories_def
  by (subst fetchLoop_short_page [where d = "[rawNamed ''a'' False, rawNamed ''b'' False]"])
     (simp_all add: remoteAB_def)

lemma names_remoteAB:
  "map name (normalisePage clockEx 0 [rawNamed ''a'' False, rawNamed ''b'' False])
     = [utf16 ''a'', utf16 ''b'']"
  by (simp add: map_name_normalisePage rawNamed_def)

lemma private_remoteAB:
  "map private_repo (normalisePage clockEx 0 [rawNamed ''a'' False, rawNamed ''b'' False])
     = [False, False]"
  by (simp add: normalisePage_def toRepository_def rawNamed_def)

lemma value_visibilityChoice: "map (value_choice \<circ> visibilityChoice) repos = map name repos"
  by (simp add: visibilityChoice_def comp_def)

lemma value_deletionChoice: "map (value_choice \<circ> deletionChoice) repos = map name repos"
  by (simp add: deletionChoice_def comp_def)

lemma filteredRepos_all:
  "\<forall>r\<in>set repos. private_repo r \<noteq> isTargetPrivate t \<Longrightarrow> filteredRepos t repos = repos"
  by (simp add: filteredRepos_def)

lemma failures_remoteAB:
  "failures remoteAB owner (SetVisibility Private) [utf16 ''a'', utf16 ''b''] = 1"
  "failures remoteAB owner DeleteRepository [utf16 ''a'', utf16 ''b''] = 1"
  by (simp_all add: failures_def rejected_def remoteAB_def upt_rec)

theorem batch_count_law_witness:
  "changeVisibilityFlow clockEx remoteAB (utf16 ''o'') (operatorEx []) =
     Some ([Console Fetching, ListCall 100 1] @
           executeBatch remoteAB (utf16 ''o'') (SetVisibility Private) [utf16 ''a'', utf16 ''b'']) \<and>
   deleteRepositoriesFlow clockEx remoteAB (utf16 ''o'') (operatorEx [utf16 ''DELETE'']) =
     Some ([Console Fetching, ListCall 100 1] @ [Console AboutToDelete] @
           map (\<lambda>repo. Console (Bullet repo)) [utf16 ''a'', utf16 ''b''] @ [] @
           executeBatch remoteAB (utf16 ''o'') DeleteRepository [utf16 ''a'', utf16 ''b''],
           Returned) \<and>
   last (executeBatch remoteAB (utf16 ''o'') (SetVisibility Private) [utf16 ''a'', utf16 ''b''])
     = Console (Summary 1 1) \<and>
   filter isRequest
     (executeBatch remoteAB (utf16 ''o'') (SetVisibility Private) [utf16 ''a'', utf16 ''b''])
     = [UpdateCall (utf16 ''o'') (utf16 ''a'') True, UpdateCall (utf16 ''o'') (utf16 ''b'') True]"
proof -
  let ?repos = "normalisePage clockEx 0 [rawNamed ''a'' False, rawNamed ''b'' False]"
  let ?sel = "[utf16 ''a'', utf16 ''b'']"
  have all_public: "\<forall>r\<in>set ?repos. private_repo r \<noteq> isTargetPrivate Private"
    by (simp add: normalisePage_def toRepository_def rawNamed_def isTargetPrivate_def)
  have filtered: "filteredRepos Private ?repos = ?repos"
    using all_public by (rule filteredRepos_all)
  have nonempty: "?repos \<noteq> []"
    by (simp add: normalisePage_def)
  have h1: "getAllRepositories clockEx remoteAB = Some ([Console Fetching, ListCall 100 1], ?repos) \<and>
      filteredRepos (answer_targetVisibility (operatorEx [])) ?repos \<noteq> [] \<and>
      answer_selectedRepos (operatorEx [])
        (map visibilityChoice (filteredRepos (answer_targetVisibility (operatorEx [])) ?repos))
        = ?sel \<and>
      ?sel \<noteq> [] \<and> answer_confirm (operatorEx [])"
    using nonempty
    by (simp add: getAllRepositories_remoteAB operatorEx_def filtered value_visibilityChoice
        names_remoteAB)
  have h2: "getAllRepositories clockEx remoteAB = Some ([Console Fetching, ListCall 100 1], ?repos) \<and>
      ?repos \<noteq> [] \<and>
      answer_selectedRepos (operatorEx [utf16 ''DELETE'']) (map deletionChoice ?repos) = ?sel \<and>
      ?sel \<noteq> [] \<and>
      promptInput validateDelete (answers_confirmDelete (operatorEx [utf16 ''DELETE'']))
        = ([], Some (utf16 ''DELETE''))"
    using nonempty
    by (simp add: getAllRepositories_remoteAB operatorEx_def value_deletionChoice
        names_remoteAB validateDelete_def)
  from batch_count_law
    [of remoteAB "utf16 ''o''" "SetVisibility Private" ?sel clockEx "operatorEx []"] h1
  have a: "changeVisibilityFlow clockEx remoteAB (utf16 ''o'') (operatorEx []) =
     Some ([Console Fetching, ListCall 100 1] @
           executeBatch remoteAB (utf16 ''o'') (SetVisibility Private) ?sel) \<and>
     last (executeBatch remoteAB (utf16 ''o'') (SetVisibility Private) ?sel)
       = Console (Summary 1 1) \<and>
     filter isRequest (executeBatch remoteAB (utf16 ''o'') (SetVisibility Private) ?sel)
       = [UpdateCall (utf16 ''o'') (utf16 ''a'') True, UpdateCall (utf16 ''o'') (utf16 ''b'') True]"
    by (simp add: failures_remoteAB operatorEx_def isTargetPrivate_def)
  from batch_count_law
    [of remoteAB "utf16 ''o''" DeleteRepository ?sel clockEx "operatorEx [utf16 ''DELETE'']"] h2
  have b: "deleteRepositoriesFlow clockEx remoteAB (utf16 ''o'') (operatorEx [utf16 ''DELETE'']) =
     Some ([Console Fetching, ListCall 100 1] @ [Console AboutToDelete] @
           map (\<lambda>repo. Console (Bullet repo)) ?sel @ [] @
           executeBatch remoteAB (utf16 ''o'') DeleteRepository ?sel, Returned)"
    by blast
  from a b show ?thesis by simp
qed

text \<open>
  C7. Among the requests and the waits of a batch, one wait stands between each two
  consecutive requests and none after the last, so a batch of \<open>N\<close> items waits
  \<open>N - 1\<close> times; each wait is 100 ms in a visibility change and 200 ms in a
  deletion.
\<close>

theorem inter_item_pacing:
  "filter (\<lambda>e. isRequest e \<or> isDelay e) (executeBatch remote username act selectedRepos)
     = paced (Delay (pacing act)) (map (request act username) selectedRepos) \<and>
   filter isDelay (executeBatch remote username act selectedRepos)
     = replicate (length selectedRepos - 1) (Delay (pacing act)) \<and>
   pacing (SetVisibility targetVisibility) = 100 \<and>
   pacing DeleteRepository = 200"
  by (simp add: paced_executeBatch delays_executeBatch)

theorem inter_item_pacing_witness:
  "filter (\<lambda>e. isRequest e \<or> isDelay e)
     (executeBatch remoteAB (utf16 ''o'') DeleteRepository [utf16 ''a'', utf16 ''b''])
     = [DeleteCall (utf16 ''o'') (utf16 ''a''), Delay 200, DeleteCall (utf16 ''o'') (utf16 ''b'')] \<and>
   filter isDelay
     (executeBatch remoteAB (utf16 ''o'') (SetVisibility Private) [utf16 ''a'', utf16 ''b''])
     = [Delay 100]"
  using inter_item_pacing
      [of remoteAB "utf16 ''o''" DeleteRepository "[utf16 ''a'', utf16 ''b'']"]
    inter_item_pacing
      [of remoteAB "utf16 ''o''" "SetVisibility Private" "[utf16 ''a'', utf16 ''b'']"]
  by simp

section \<open>Properties of the eligibility filter\<close>

lemma count_list_filter:
  "count_list (filter P xs) x = (if P x then count_list xs x else 0)"
  by (induction xs) auto

text \<open>
  C5. The eligibility filter keeps no record whose flag already equals the target and
  keeps every other record of the snapshot as often as the snapshot has it: the result
  is the snapshot restricted to the positions of the records that differ from the
  target, in the order of the snapshot.
\<close>

theorem filteredRepos_correct:
  "(\<forall>repo\<in>set (filteredRepos t repos). private_repo repo \<noteq> isTargetPrivate t) \<and>
   (\<forall>repo. private_repo repo = isTargetPrivate t \<longrightarrow> repo \<notin> set (filteredRepos t repos)) \<and>
   (\<forall>repo. private_repo repo \<noteq> isTargetPrivate t \<longrightarrow>
      count_list (filteredRepos t repos) repo = count_list repos repo) \<and>
   filteredRepos t repos =
     nths repos {i. i < length repos \<and> private_repo (repos ! i) \<noteq> isTargetPrivate t} \<and>
   subseq (filteredRepos t repos) repos \<and>
   isTargetPrivate Private \<and> \<not> isTargetPrivate Public"
proof (intro conjI)
  show "\<forall>repo\<in>set (filteredRepos t repos). private_repo repo \<noteq> isTargetPrivate t"
    by (simp add: filteredRepos_def)
  show "\<forall>repo. private_repo repo = isTargetPrivate t \<longrightarrow> repo \<notin> set (filteredRepos t repos)"
    by (simp add: filteredRepos_def)
  show "\<forall>repo. private_repo repo \<noteq> isTargetPrivate t \<longrightarrow>
      count_list (filteredRepos t repos) repo = count_list repos repo"
    by (simp add: filteredRepos_def count_list_filter)
  show "filteredRepos t repos =
     nths repos {i. i < length repos \<and> private_repo (repos ! i) \<noteq> isTargetPrivate t}"
    unfolding filteredRepos_def by (rule filter_eq_nths)
  show "subseq (filteredRepos t repos) repos"
    by (simp add: filteredRepos_def)
  show "isTargetPrivate Private" and "\<not> isTargetPrivate Public"
    by (simp_all add: isTargetPrivate_def)
qed

lemma snapshotABC_eq:
  "snapshotABC =
     [toRepository (clockEx 0) (rawNamed ''a'' False),
      toRepository (clockEx 1) (rawNamed ''b'' False),
      toRepository (clockEx 2) (rawNamed ''c'' True)]"
  by (simp add: snapshotABC_def normalisePage_def clockEx_def)

theorem filteredRepos_correct_witness:
  "private_repo (toRepository (clockEx 2) (rawNamed ''c'' True)) = isTargetPrivate Private \<and>
   toRepository (clockEx 2) (rawNamed ''c'' True) \<notin> set (filteredRepos Private snapshotABC) \<and>
   private_repo (toRepository (clockEx 0) (rawNamed ''a'' False)) \<noteq> isTargetPrivate Private \<and>
   count_list (filteredRepos Private snapshotABC) (toRepository (clockEx 0) (rawNamed ''a'' False))
     = 1 \<and>
   subseq (filteredRepos Private snapshotABC) snapshotABC"
proof -
  have c: "private_repo (toRepository (clockEx 2) (rawNamed ''c'' True)) = isTargetPrivate Private"
    by (simp add: toRepository_def rawNamed_def isTargetPrivate_def)
  have a: "private_repo (toRepository (clockEx 0) (rawNamed ''a'' False)) \<noteq> isTargetPrivate Private"
    by (simp add: toRepository_def rawNamed_def isTargetPrivate_def)
  have n: "count_list snapshotABC (toRepository (clockEx 0) (rawNamed ''a'' False)) = 1"
    by (simp add: snapshotABC_eq toRepository_def rawNamed_def utf16_def)
  from filteredRepos_correct [of Private snapshotABC] have
    "(\<forall>repo. private_repo repo = isTargetPrivate Private \<longrightarrow>
        repo \<notin> set (filteredRepos Private snapshotABC)) \<and>
     (\<forall>repo. private_repo repo \<noteq> isTargetPrivate Private \<longrightarrow>
        count_list (filteredRepos Private snapshotABC) repo = count_list snapshotABC repo) \<and>
     subseq (filteredRepos Private snapshotABC) snapshotABC"
    by blast
  with c a n show ?thesis
    by simp
qed

lemma fetchLoop_no_requests:
  assumes "fetchLoop clock remote page acc tr = Some y" and "filter isRequest tr = []"
  shows "filter isRequest (fst y) = []"
  using assms
proof (induction rule: fetchLoop.raw_induct [rotated 1, consumes 1, case_names 1])
  case (1 loop clock remote page repositories tr y)
  show ?case
  proof (cases "repos_listForAuthenticatedUser remote 100 page")
    case (Inl err)
    with 1(2,3) show ?thesis by auto
  next
    case (Inr data)
    show ?thesis
    proof (cases "length data = 100")
      case True
      with Inr 1(2) have
        "loop clock remote (page + 1)
           (repositories @ normalisePage clock (length repositories) data)
           (tr @ [ListCall 100 page]) = Some y"
        by simp
      from 1(1) [OF this] 1(3) show ?thesis by simp
    next
      case False
      with Inr 1(2,3) show ?thesis by auto
    qed
  qed
qed

lemma getAllRepositories_no_requests:
  "getAllRepositories clock remote = Some (tr0, repos) \<Longrightarrow> filter isRequest tr0 = []"
  using fetchLoop_no_requests [of clock remote 1 "[]" "[Console Fetching]" "(tr0, repos)"]
  by (simp add: getAllRepositories_def)

















section \<open>Properties of the deletion prompt\<close>

lemma validateDelete_iff: "validateDelete line = Accepted \<longleftrightarrow> line = utf16 ''DELETE''"
  by (simp add: validateDelete_def)

lemma promptInput_validateDelete:
  "promptInput validateDelete typed =
     (map (\<lambda>line. Rejected line mustTypeDelete)
        (takeWhile (\<lambda>line. line \<noteq> utf16 ''DELETE'') typed),
      if utf16 ''DELETE'' \<in> set typed then Some (utf16 ''DELETE'') else None)"
  by (induction typed) (auto simp: validateDelete_def)

lemma requests_bullets [simp]:
  "filter isRequest (map (\<lambda>repo. Console (Bullet repo)) names) = []"
  by (induction names) simp_all

lemma requests_refused [simp]:
  "filter isRequest (map (\<lambda>line. Rejected line shown) typed) = []"
  by (induction typed) simp_all

lemma deleteRepositoriesFlow_unconfirmed:
  assumes "deleteRepositoriesFlow clock remote username operator = Some (tr, ending)"
    and "utf16 ''DELETE'' \<notin> set (answers_confirmDelete operator)"
  shows "filter isRequest tr = []"
proof (cases "getAllRepositories clock remote")
  case None
  with assms(1) show ?thesis by (simp add: deleteRepositoriesFlow_def)
next
  case (Some fetched)
  obtain tr0 repos where f: "fetched = (tr0, repos)" by (cases fetched)
  have none: "filter isRequest tr0 = []"
    using Some f by (auto dest: getAllRepositories_no_requests)
  from assms Some f none show ?thesis
    by (auto simp: deleteRepositoriesFlow_def Let_def promptInput_validateDelete
        split: if_splits)
qed

text \<open>
  C2, as the code has it. A line other than the exact literal "DELETE" (so "delete",
  "Delete" and the empty line) never leads to a delete request. The \<open>validate\<close>
  callback accepts "DELETE" alone: every other line is refused with the message and the
  prompt asks again, so the prompt resolves to "DELETE" or not at all. A run in which
  "DELETE" is never entered sends no request. And were the prompt to resolve to any
  other value, the test after it would cancel the operation without a request.
\<close>

theorem deletion_confirmation_gate:
  "(confirmDelete \<noteq> utf16 ''DELETE'' \<longrightarrow>
      confirmedDeletion remote username selectedRepos confirmDelete = [Console Cancelled]) \<and>
   (validateDelete line = Accepted \<longleftrightarrow> line = utf16 ''DELETE'') \<and>
   promptInput validateDelete typed =
     (map (\<lambda>line. Rejected line mustTypeDelete)
        (takeWhile (\<lambda>line. line \<noteq> utf16 ''DELETE'') typed),
      if utf16 ''DELETE'' \<in> set typed then Some (utf16 ''DELETE'') else None) \<and>
   (\<forall>tr ending.
      deleteRepositoriesFlow clock remote username operator = Some (tr, ending) \<and>
      utf16 ''DELETE'' \<notin> set (answers_confirmDelete operator) \<longrightarrow>
      filter isRequest tr = [])"
proof (intro conjI allI impI)
  show "confirmedDeletion remote username selectedRepos confirmDelete = [Console Cancelled]"
    if "confirmDelete \<noteq> utf16 ''DELETE''"
    using that by (simp add: confirmedDeletion_def)
  show "validateDelete line = Accepted \<longleftrightarrow> line = utf16 ''DELETE''"
    by (rule validateDelete_iff)
  show "promptInput validateDelete typed =
     (map (\<lambda>line. Rejected line mustTypeDelete)
        (takeWhile (\<lambda>line. line \<noteq> utf16 ''DELETE'') typed),
      if utf16 ''DELETE'' \<in> set typed then Some (utf16 ''DELETE'') else None)"
    by (rule promptInput_validateDelete)
next
  fix tr ending
  assume "deleteRepositoriesFlow clock remote username operator = Some (tr, ending) \<and>
      utf16 ''DELETE'' \<notin> set (answers_confirmDelete operator)"
  then show "filter isRequest tr = []"
    using deleteRepositoriesFlow_unconfirmed by blast
qed

lemma literals_differ:
  "utf16 ''delete'' \<noteq> utf16 ''DELETE''" "utf16 ''Delete'' \<noteq> utf16 ''DELETE''"
  "[] \<noteq> utf16 ''DELETE''"
  by (simp_all add: utf16_def)

lemma deleteRepositoriesFlow_remoteAB:
  "deleteRepositoriesFlow clockEx remoteAB (utf16 ''o'') (operatorEx typed) =
     (case promptInput validateDelete typed of
        (refused, None) \<Rightarrow>
          Some ([Console Fetching, ListCall 100 1, Console AboutToDelete,
                 Console (Bullet (utf16 ''a'')), Console (Bullet (utf16 ''b''))] @ refused,
                Suspended)
      | (refused, Some confirmDelete) \<Rightarrow>
          Some ([Console Fetching, ListCall 100 1, Console AboutToDelete,
                 Console (Bullet (utf16 ''a'')), Console (Bullet (utf16 ''b''))] @ refused @
                confirmedDeletion remoteAB (utf16 ''o'') [utf16 ''a'', utf16 ''b''] confirmDelete,
                Returned))"
  by (simp add: deleteRepositoriesFlow_def Let_def getAllRepositories_remoteAB operatorEx_def
      value_deletionChoice names_remoteAB split: prod.splits option.splits)

lemma executeBatch_delete_remoteAB:
  "executeBatch remoteAB (utf16 ''o'') DeleteRepository [utf16 ''a'', utf16 ''b''] =
     [Console DeletingRepositories,
      Progress 1 2, DeleteCall (utf16 ''o'') (utf16 ''a''), Console (ItemDeleted (utf16 ''a'')),
      Delay 200,
      Progress 2 2, DeleteCall (utf16 ''o'') (utf16 ''b''),
      Console (ItemDeleteFailed (utf16 ''b'')),
      Console BlankLine, Console (Summary 1 1)]"
  unfolding executeBatch_events failures_remoteAB
  by (simp add: itemEvents_def rejected_def remoteAB_def upt_rec)

theorem deletion_confirmation_gate_witness:
  "utf16 ''delete'' \<noteq> utf16 ''DELETE'' \<and>
   confirmedDeletion remoteAB (utf16 ''o'') [utf16 ''a''] (utf16 ''delete'') = [Console Cancelled] \<and>
   utf16 ''DELETE'' \<notin> set (answers_confirmDelete (operatorEx [utf16 ''delete'', utf16 ''Delete'', []])) \<and>
   deleteRepositoriesFlow clockEx remoteAB (utf16 ''o'')
       (operatorEx [utf16 ''delete'', utf16 ''Delete'', []]) =
     Some ([Console Fetching, ListCall 100 1, Console AboutToDelete,
            Console (Bullet (utf16 ''a'')), Console (Bullet (utf16 ''b'')),
            Rejected (utf16 ''delete'') mustTypeDelete,
            Rejected (utf16 ''Delete'') mustTypeDelete,
            Rejected [] mustTypeDelete], Suspended) \<and>
   filter isRequest
     [Console Fetching, ListCall 100 1, Console AboutToDelete,
      Console (Bullet (utf16 ''a'')), Console (Bullet (utf16 ''b'')),
      Rejected (utf16 ''delete'') mustTypeDelete,
      Rejected (utf16 ''Delete'') mustTypeDelete,
      Rejected [] mustTypeDelete] = []"
proof -
  let ?typed = "[utf16 ''delete'', utf16 ''Delete'', []]"
  let ?tr = "[Console Fetching, ListCall 100 1, Console AboutToDelete,
      Console (Bullet (utf16 ''a'')), Console (Bullet (utf16 ''b'')),
      Rejected (utf16 ''delete'') mustTypeDelete,
      Rejected (utf16 ''Delete'') mustTypeDelete,
      Rejected [] mustTypeDelete]"
  have never: "utf16 ''DELETE'' \<notin> set (answers_confirmDelete (operatorEx ?typed))"
    using literals_differ by (auto simp: operatorEx_def)
  have run: "deleteRepositoriesFlow clockEx remoteAB (utf16 ''o'') (operatorEx ?typed)
      = Some (?tr, Suspended)"
    using literals_differ
    by (simp add: deleteRepositoriesFlow_remoteAB validateDelete_def)
  from deletion_confirmation_gate
    [of "utf16 ''delete''" remoteAB "utf16 ''o''" "[utf16 ''a'']" "[]" ?typed clockEx
      "operatorEx ?typed"]
    literals_differ(1) never run
  show ?thesis by blast
qed

text \<open>
  C2 as stated does not hold: a line other than "DELETE" does not cancel the deletion.
  After "delete" the prompt asks again, and "DELETE" on the second try deletes; with
  "delete" alone the run stays at the prompt and prints no cancellation.
\<close>

theorem deletion_prompt_retry_counterexample:
  "utf16 ''delete'' \<noteq> utf16 ''DELETE'' \<and>
   deleteRepositoriesFlow clockEx remoteAB (utf16 ''o'')
       (operatorEx [utf16 ''delete'', utf16 ''DELETE'']) =
     Some ([Console Fetching, ListCall 100 1, Console AboutToDelete,
            Console (Bullet (utf16 ''a'')), Console (Bullet (utf16 ''b'')),
            Rejected (utf16 ''delete'') mustTypeDelete,
            Console DeletingRepositories,
            Progress 1 2, DeleteCall (utf16 ''o'') (utf16 ''a''),
            Console (ItemDeleted (utf16 ''a'')),
            Delay 200,
            Progress 2 2, DeleteCall (utf16 ''o'') (utf16 ''b''),
            Console (ItemDeleteFailed (utf16 ''b'')),
            Console BlankLine, Console (Summary 1 1)], Returned) \<and>
   deleteRepositoriesFlow clockEx remoteAB (utf16 ''o'') (operatorEx [utf16 ''delete'']) =
     Some ([Console Fetching, ListCall 100 1, Console AboutToDelete,
            Console (Bullet (utf16 ''a'')), Console (Bullet (utf16 ''b'')),
            Rejected (utf16 ''delete'') mustTypeDelete], Suspended)"
  using literals_differ
  by (simp add: deleteRepositoriesFlow_remoteAB validateDelete_def confirmedDeletion_def
      executeBatch_delete_remoteAB)

section \<open>Properties of sortRepositories\<close>

lemma mset_insertSorted: "mset (insertSorted comparefn x ys) = add_mset x (mset ys)"
  by (induction ys) simp_all

lemma mset_sortedContents: "mset (sortedContents comparefn xs) = mset xs"
  by (induction xs) (simp_all add: sortedContents_def mset_insertSorted)

lemma set_insertSorted: "set (insertSorted comparefn x ys) = insert x (set ys)"
  using mset_insertSorted [of comparefn x ys, THEN arg_cong, of set_mset] by simp

lemma set_sortedContents: "set (sortedContents comparefn xs) = set xs"
  using mset_sortedContents [of comparefn xs, THEN arg_cong, of set_mset] by simp

lemma consistentOn_total:
  "consistentOn S comparefn \<Longrightarrow> x \<in> S \<Longrightarrow> y \<in> S \<Longrightarrow>
   notAfter comparefn x y \<or> notAfter comparefn y x"
  unfolding consistentOn_def by blast

lemma consistentOn_trans:
  "consistentOn S comparefn \<Longrightarrow> x \<in> S \<Longrightarrow> y \<in> S \<Longrightarrow> z \<in> S \<Longrightarrow>
   notAfter comparefn x y \<Longrightarrow> notAfter comparefn y z \<Longrightarrow> notAfter comparefn x z"
  unfolding consistentOn_def by blast

lemma sorted_insertSorted:
  assumes "consistentOn S comparefn" and "x \<in> S" and "set ys \<subseteq> S"
    and "sorted_wrt (notAfter comparefn) ys"
  shows "sorted_wrt (notAfter comparefn) (insertSorted comparefn x ys)"
  using assms(3,4)
proof (induction ys)
  case Nil
  then show ?case by simp
next
  case (Cons y ys)
  have y: "y \<in> S" and ys: "set ys \<subseteq> S"
    using Cons.prems(1) by simp_all
  have tail: "sorted_wrt (notAfter comparefn) ys" and head: "\<forall>z\<in>set ys. notAfter comparefn y z"
    using Cons.prems(2) by simp_all
  show ?case
  proof (cases "sortCompare comparefn x y \<le> 0")
    case True
    then have xy: "notAfter comparefn x y" by (simp add: notAfter_def)
    have "\<forall>z\<in>set ys. notAfter comparefn x z"
    proof
      fix z assume z: "z \<in> set ys"
      then have "z \<in> S" using ys by (rule subsetD [rotated])
      moreover have "notAfter comparefn y z" using head z by (rule bspec)
      ultimately show "notAfter comparefn x z"
        using consistentOn_trans [OF assms(1,2) y _ xy] by blast
    qed
    with True xy head tail show ?thesis by simp
  next
    case False
    then have "\<not> notAfter comparefn x y" by (simp add: notAfter_def)
    with consistentOn_total [OF assms(1,2) y] have yx: "notAfter comparefn y x" by simp
    have "sorted_wrt (notAfter comparefn) (insertSorted comparefn x ys)"
      using ys tail by (rule Cons.IH)
    with False yx head show ?thesis
      by (simp add: set_insertSorted)
  qed
qed

lemma sorted_sortedContents:
  assumes "consistentOn S comparefn" and "set xs \<subseteq> S"
  shows "sorted_wrt (notAfter comparefn) (sortedContents comparefn xs)"
  using assms(2)
proof (induction xs)
  case Nil
  then show ?case by (simp add: sortedContents_def)
next
  case (Cons x xs)
  have x: "x \<in> S" and xs: "set xs \<subseteq> S"
    using Cons.prems by simp_all
  have "sorted_wrt (notAfter comparefn) (insertSorted comparefn x (sortedContents comparefn xs))"
    using assms(1) x
  proof (rule sorted_insertSorted)
    show "set (sortedContents comparefn xs) \<subseteq> S"
      using xs by (simp add: set_sortedContents)
    show "sorted_wrt (notAfter comparefn) (sortedContents comparefn xs)"
      using xs by (rule Cons.IH)
  qed
  then show ?case by (simp add: sortedContents_def)
qed

lemma notAfter_BySize: "notAfter (compareFn rt BySize) a b \<longleftrightarrow> size_repo b \<le> size_repo a"
  by (simp add: notAfter_def sortCompare_def compareFn_def)

lemma consistentOn_BySize: "consistentOn S (compareFn rt BySize)"
  by (auto simp: consistentOn_def notAfter_BySize)

lemma notAfter_ByUpdated:
  "dateGetTime rt (updatedAt a) = Some ta \<Longrightarrow> dateGetTime rt (updatedAt b) = Some tb \<Longrightarrow>
   notAfter (compareFn rt ByUpdated) a b \<longleftrightarrow> tb \<le> ta"
  by (simp add: notAfter_def sortCompare_def compareFn_def)

lemma parsed_date:
  "\<forall>r\<in>S. dateGetTime rt (updatedAt r) \<noteq> None \<Longrightarrow> x \<in> S \<Longrightarrow>
   \<exists>t. dateGetTime rt (updatedAt x) = Some t"
  by auto

lemma consistentOn_ByUpdated:
  assumes "\<forall>r\<in>S. dateGetTime rt (updatedAt r) \<noteq> None"
  shows "consistentOn S (compareFn rt ByUpdated)"
  unfolding consistentOn_def
proof (intro conjI ballI impI)
  fix x y assume x: "x \<in> S" and y: "y \<in> S"
  from parsed_date [OF assms x] obtain tx where tx: "dateGetTime rt (updatedAt x) = Some tx" ..
  from parsed_date [OF assms y] obtain ty where ty: "dateGetTime rt (updatedAt y) = Some ty" ..
  show "notAfter (compareFn rt ByUpdated) x y \<or> notAfter (compareFn rt ByUpdated) y x"
    unfolding notAfter_ByUpdated [OF tx ty] notAfter_ByUpdated [OF ty tx] by linarith
next
  fix x y z assume x: "x \<in> S" and y: "y \<in> S" and z: "z \<in> S"
    and h: "notAfter (compareFn rt ByUpdated) x y \<and> notAfter (compareFn rt ByUpdated) y z"
  from parsed_date [OF assms x] obtain tx where tx: "dateGetTime rt (updatedAt x) = Some tx" ..
  from parsed_date [OF assms y] obtain ty where ty: "dateGetTime rt (updatedAt y) = Some ty" ..
  from parsed_date [OF assms z] obtain tz where tz: "dateGetTime rt (updatedAt z) = Some tz" ..
  from h show "notAfter (compareFn rt ByUpdated) x z"
    unfolding notAfter_ByUpdated [OF tx ty] notAfter_ByUpdated [OF ty tz]
      notAfter_ByUpdated [OF tx tz] by linarith
qed

text \<open>
  C8, as the code has it. \<open>sortRepositories\<close> sorts the array it is given in place
  and returns the same reference: afterwards that array holds the same records, in
  sorted order whenever the comparison orders them consistently, which it always does
  by size and does by update time when every date parses; no other array is changed.
  Filtering makes a new array and leaves the store as it was.
\<close>

theorem snapshot_frame:
  assumes "repos < length st"
  shows
    "(\<exists>st'. sortRepositories rt repos sort_by st = Some (repos, st') \<and>
        length st' = length st \<and>
        mset (st' ! repos) = mset (st ! repos) \<and>
        (\<forall>other<length st. other \<noteq> repos \<longrightarrow> st' ! other = st ! other) \<and>
        (consistentOn (set (st ! repos)) (compareFn rt sort_by) \<longrightarrow>
           sorted_wrt (notAfter (compareFn rt sort_by)) (st' ! repos))) \<and>
     (\<exists>st'. array_filter predicate repos st = Some (length st, st') \<and>
        take (length st) st' = st \<and>
        st' ! length st = filter predicate (st ! repos)) \<and>
     consistentOn (set (st ! repos)) (compareFn rt BySize) \<and>
     (\<forall>a b. notAfter (compareFn rt BySize) a b \<longleftrightarrow> size_repo b \<le> size_repo a) \<and>
     ((\<forall>r\<in>set (st ! repos). dateGetTime rt (updatedAt r) \<noteq> None) \<longrightarrow>
        consistentOn (set (st ! repos)) (compareFn rt ByUpdated))"
proof (intro conjI)
  let ?st' = "st[repos := sortedContents (compareFn rt sort_by) (st ! repos)]"
  have "sortRepositories rt repos sort_by st = Some (repos, ?st')"
    using assms by (simp add: sortRepositories_def array_sort_def)
  moreover have "length ?st' = length st" by simp
  moreover have "mset (?st' ! repos) = mset (st ! repos)"
    using assms by (simp add: mset_sortedContents)
  moreover have "\<forall>other<length st. other \<noteq> repos \<longrightarrow> ?st' ! other = st ! other"
    by simp
  moreover have "consistentOn (set (st ! repos)) (compareFn rt sort_by) \<longrightarrow>
      sorted_wrt (notAfter (compareFn rt sort_by)) (?st' ! repos)"
  proof
    assume "consistentOn (set (st ! repos)) (compareFn rt sort_by)"
    then have "sorted_wrt (notAfter (compareFn rt sort_by))
        (sortedContents (compareFn rt sort_by) (st ! repos))"
      by (rule sorted_sortedContents) (rule subset_refl)
    then show "sorted_wrt (notAfter (compareFn rt sort_by)) (?st' ! repos)"
      using assms by simp
  qed
  ultimately show "\<exists>st'. sortRepositories rt repos sort_by st = Some (repos, st') \<and>
        length st' = length st \<and>
        mset (st' ! repos) = mset (st ! repos) \<and>
        (\<forall>other<length st. other \<noteq> repos \<longrightarrow> st' ! other = st ! other) \<and>
        (consistentOn (set (st ! repos)) (compareFn rt sort_by) \<longrightarrow>
           sorted_wrt (notAfter (compareFn rt sort_by)) (st' ! repos))"
    by blast
  show "\<exists>st'. array_filter predicate repos st = Some (length st, st') \<and>
        take (length st) st' = st \<and>
        st' ! length st = filter predicate (st ! repos)"
    using assms by (simp add: array_filter_def)
  show "consistentOn (set (st ! repos)) (compareFn rt BySize)"
    by (rule consistentOn_BySize)
  show "\<forall>a b. notAfter (compareFn rt BySize) a b \<longleftrightarrow> size_repo b \<le> size_repo a"
    by (simp add: notAfter_BySize)
  show "(\<forall>r\<in>set (st ! repos). dateGetTime rt (updatedAt r) \<noteq> None) \<longrightarrow>
        consistentOn (set (st ! repos)) (compareFn rt ByUpdated)"
    by (rule impI) (rule consistentOn_ByUpdated)
qed

lemma sortRepositories_example:
  "sortRepositories runtimeEx 0 BySize [[repoSmall, repoLarge]] =
     Some (0, [[repoLarge, repoSmall]])"
  by (simp add: sortRepositories_def array_sort_def sortedContents_def sortCompare_def
      compareFn_def repoSmall_def repoLarge_def toRepository_def)

lemma repoSmall_neq_repoLarge: "repoSmall \<noteq> repoLarge"
proof
  assume "repoSmall = repoLarge"
  then have "size_repo repoSmall = size_repo repoLarge" by simp
  then show False by (simp add: repoSmall_def repoLarge_def toRepository_def)
qed

theorem snapshot_frame_witness:
  "(0::nat) < length [[repoSmall, repoLarge]] \<and>
   (\<exists>st'. sortRepositories runtimeEx 0 BySize [[repoSmall, repoLarge]] = Some (0, st') \<and>
      mset (st' ! 0) = mset ([[repoSmall, repoLarge]] ! 0) \<and>
      sorted_wrt (notAfter (compareFn runtimeEx BySize)) (st' ! 0))"
proof -
  let ?st = "[[repoSmall, repoLarge]]"
  have h: "(0::nat) < length ?st" by simp
  note frame = snapshot_frame [OF h, of runtimeEx BySize private_repo]
  from frame have
    "\<exists>st'. sortRepositories runtimeEx 0 BySize ?st = Some (0, st') \<and>
        length st' = length ?st \<and>
        mset (st' ! 0) = mset (?st ! 0) \<and>
        (\<forall>other<length ?st. other \<noteq> 0 \<longrightarrow> st' ! other = ?st ! other) \<and>
        (consistentOn (set (?st ! 0)) (compareFn runtimeEx BySize) \<longrightarrow>
           sorted_wrt (notAfter (compareFn runtimeEx BySize)) (st' ! 0))"
    by (rule conjunct1)
  then obtain st' where
    a: "sortRepositories runtimeEx 0 BySize ?st = Some (0, st')" and
    b: "mset (st' ! 0) = mset (?st ! 0)" and
    c: "consistentOn (set (?st ! 0)) (compareFn runtimeEx BySize) \<longrightarrow>
           sorted_wrt (notAfter (compareFn runtimeEx BySize)) (st' ! 0)"
    by (elim exE conjE)
  from frame have d: "consistentOn (set (?st ! 0)) (compareFn runtimeEx BySize)"
    by (elim conjE)
  from c d have "sorted_wrt (notAfter (compareFn runtimeEx BySize)) (st' ! 0)"
    by (rule mp)
  with h a b show ?thesis by (intro conjI exI [of _ st'])
qed

text \<open>
  C8 as stated does not hold: after \<open>sortRepositories\<close> the array passed in holds
  the records in another order.
\<close>

theorem sortRepositories_in_place_counterexample:
  "sortRepositories runtimeEx 0 BySize [[repoSmall, repoLarge]] =
     Some (0, [[repoLarge, repoSmall]]) \<and>
   [[repoLarge, repoSmall]] ! 0 \<noteq> [[repoSmall, repoLarge]] ! 0"
  using repoSmall_neq_repoLarge by (simp add: sortRepositories_example)

end
